theory Spec2Isabelle
  imports Complex_Main "HOL-Library.AList" "HOL-Library.Sublist"
begin

section \<open>Block memory game: data model\<close>

text \<open>
  The development embeds \<^verbatim>\<open>BlockGame.py\<close> (class \<^verbatim>\<open>BlockMemoryGameSequence\<close>).
  Python integers are \<open>int\<close>, counters that only grow from zero are \<open>nat\<close>, a
  Python float is a value of type \<open>pyfloat\<close>, the clock and the random source are explicit
  arguments, and every exception the code can raise is a value of type \<open>error\<close>.
\<close>

datatype error = IndexError | ValueError | TypeError

subsection \<open>Floating-point arithmetic\<close>

text \<open>
  Python's \<^verbatim>\<open>float\<close> is the IEEE 754 double: 53 significant bits, exponents from -1022
  (below that the spacing stays \<open>2\<^sup>-\<^sup>1\<^sup>0\<^sup>7\<^sup>4\<close>). Its \<^verbatim>\<open>+\<close>, \<^verbatim>\<open>-\<close> and \<^verbatim>\<open>/\<close> return the
  exact result rounded to the nearest double, a tie going to the even significand; an
  \<^verbatim>\<open>int\<close> operand is first converted the same way. \<open>fl\<close> is that rounding, with
  no bound on the exponent from above. A result that rounds to \<open>2\<^sup>1\<^sup>0\<^sup>2\<^sup>4\<close> or more in
  magnitude is an infinity; \<^verbatim>\<open>+\<close>, \<^verbatim>\<open>-\<close> and \<^verbatim>\<open>/\<close> raise no exception for
  it (only a zero divisor raises).
\<close>

definition round_half_even :: "real \<Rightarrow> int" where
  "round_half_even y =
     (if y - of_int \<lfloor>y\<rfloor> < 1 / 2 then \<lfloor>y\<rfloor>
      else if y - of_int \<lfloor>y\<rfloor> > 1 / 2 then \<lfloor>y\<rfloor> + 1
      else if even \<lfloor>y\<rfloor> then \<lfloor>y\<rfloor> else \<lfloor>y\<rfloor> + 1)"

definition fl :: "real \<Rightarrow> real" where
  "fl x =
     (if x = 0 then 0
      else (let e = max \<lfloor>log 2 \<bar>x\<bar>\<rfloor> (- 1022) - 52
            in of_int (round_half_even (x / 2 powr of_int e)) * 2 powr of_int e))"

declare fl_def [code del]

text \<open>
  A float is finite, one of the two infinities, or \<^verbatim>\<open>nan\<close>. \<open>Finite x\<close> is the double
  of value \<open>x\<close> (\<^verbatim>\<open>-0.0\<close> and \<^verbatim>\<open>0.0\<close>, equal in Python, are both \<open>Finite 0\<close>), and
  \<open>float_of x\<close> is the float an operation with the exact result \<open>x\<close> returns.
  \<open>fadd\<close> is \<^verbatim>\<open>+\<close> on floats, and \<open>fdiv x n\<close> is \<^verbatim>\<open>x / n\<close> for a float
  \<open>x\<close> and a positive \<^verbatim>\<open>int\<close> \<open>n\<close> (a list has fewer than \<open>2\<^sup>6\<^sup>3\<close> elements, so the
  counts of the statistics convert to finite floats).
\<close>

datatype pyfloat = Finite real | PosInf | NegInf | NaN

definition float_of :: "real \<Rightarrow> pyfloat" where
  "float_of x =
     (if 2 ^ 1024 \<le> fl x then PosInf
      else if fl x \<le> - (2 ^ 1024) then NegInf
      else Finite (fl x))"

fun fadd :: "pyfloat \<Rightarrow> pyfloat \<Rightarrow> pyfloat" where
  "fadd (Finite x) (Finite y) = float_of (x + y)"
| "fadd NaN y = NaN"
| "fadd x NaN = NaN"
| "fadd PosInf NegInf = NaN"
| "fadd NegInf PosInf = NaN"
| "fadd PosInf y = PosInf"
| "fadd x PosInf = PosInf"
| "fadd NegInf y = NegInf"
| "fadd x NegInf = NegInf"

fun fdiv :: "pyfloat \<Rightarrow> nat \<Rightarrow> pyfloat" where
  "fdiv (Finite x) n = float_of (x / fl (real n))"
| "fdiv PosInf n = PosInf"
| "fdiv NegInf n = NegInf"
| "fdiv NaN n = NaN"

subsection \<open>Dates\<close>

text \<open>
  \<^verbatim>\<open>datetime.date\<close> holds a year, a month and a day; \<^verbatim>\<open>datetime.datetime\<close> is its
  subclass with a time of day. Python's constructors admit years 1..9999, months 1..12 and
  days 1..31 (at most); \<open>valid_date\<close> records that range.
\<close>

record date =
  year :: nat
  month :: nat
  day :: nat

record datetime = date +
  hour :: nat
  minute :: nat
  second :: nat

definition valid_date :: "date \<Rightarrow> bool" where
  "valid_date d \<longleftrightarrow>
     1 \<le> year d \<and> year d \<le> 9999 \<and> 1 \<le> month d \<and> month d \<le> 12 \<and> 1 \<le> day d \<and> day d \<le> 31"

definition digit :: "nat \<Rightarrow> char" where
  "digit n = ''0123456789'' ! n"

text \<open>\<^verbatim>\<open>%02d\<close> and \<^verbatim>\<open>%04d\<close> on numbers below 100 and 10000.\<close>

definition pad2 :: "nat \<Rightarrow> string" where
  "pad2 n = [digit (n div 10 mod 10), digit (n mod 10)]"

definition pad4 :: "nat \<Rightarrow> string" where
  "pad4 n = [digit (n div 1000 mod 10), digit (n div 100 mod 10), digit (n div 10 mod 10), digit (n mod 10)]"

text \<open>\<^verbatim>\<open>now.date()\<close>, \<^verbatim>\<open>date.isoformat()\<close> and \<^verbatim>\<open>now.strftime("%Y-%m")\<close>.\<close>

definition date_of :: "datetime \<Rightarrow> date" where
  "date_of now = \<lparr>year = year now, month = month now, day = day now\<rparr>"

definition isoformat :: "date \<Rightarrow> string" where
  "isoformat d = pad4 (year d) @ ''-'' @ pad2 (month d) @ ''-'' @ pad2 (day d)"

definition strftime_Ym :: "datetime \<Rightarrow> string" where
  "strftime_Ym now = pad4 (year now) @ ''-'' @ pad2 (month now)"

subsection \<open>Round records and the statistics dictionaries\<close>

text \<open>
  One entry of \<^verbatim>\<open>self.performance_data\<close>: the dict built in \<^verbatim>\<open>end_round\<close>, with the
  keys \<^verbatim>\<open>round, level, result, time, replays, date, month_key, streak_after_round\<close>.
\<close>

record round_record =
  rec_round :: nat
  rec_level :: int
  rec_result :: string
  rec_time :: pyfloat
  rec_replays :: nat
  rec_date :: date
  rec_month_key :: string
  rec_streak_after_round :: nat

text \<open>
  The value stored per key by the first loop of \<^verbatim>\<open>_compute_daily_stats\<close> has four
  entries; the second loop adds \<^verbatim>\<open>avg_time\<close>. \<^verbatim>\<open>total_time\<close> starts as the float
  \<^verbatim>\<open>0.0\<close>, \<^verbatim>\<open>+=\<close> adds a float to it, and \<^verbatim>\<open>total_time / rounds\<close> divides a float
  by an \<^verbatim>\<open>int\<close>. The \<^verbatim>\<open>else 0\<close> of \<^verbatim>\<open>avg_time\<close> is the \<^verbatim>\<open>int\<close> 0, equal
  to the float \<^verbatim>\<open>0.0\<close>; no key of the dictionary has \<^verbatim>\<open>rounds\<close> 0.
\<close>

record tally =
  rounds :: nat
  success :: nat
  fail :: nat
  total_time :: pyfloat

record stats = tally +
  avg_time :: pyfloat

text \<open>
  A Python dict keeps its keys in insertion order: an association list with
  \<open>AList.update\<close> for \<^verbatim>\<open>d[k] = v\<close> (in place, or appended when the key is new) and
  \<open>AList.map_entry\<close> for \<^verbatim>\<open>d[k][field] += x\<close>.
\<close>

definition new_tally :: tally where
  "new_tally = \<lparr>rounds = 0, success = 0, fail = 0, total_time = Finite 0\<rparr>"

definition add_avg_time :: "tally \<Rightarrow> stats" where
  "add_avg_time st =
     \<lparr>rounds = rounds st, success = success st, fail = fail st, total_time = total_time st,
      avg_time = (if rounds st > 0 then fdiv (total_time st) (rounds st) else Finite 0)\<rparr>"

fun daily_loop :: "round_record list \<Rightarrow> (string \<times> tally) list \<Rightarrow> (string \<times> tally) list" where
  "daily_loop [] daily = daily"
| "daily_loop (record # rest) daily =
     (let day_str = isoformat (rec_date record);
          daily1 = (if day_str \<notin> fst ` set daily then AList.update day_str new_tally daily else daily);
          daily2 = AList.map_entry day_str (\<lambda>st. st\<lparr>rounds := rounds st + 1\<rparr>) daily1;
          daily3 = (if rec_result record = ''Success''
                    then AList.map_entry day_str (\<lambda>st. st\<lparr>success := success st + 1\<rparr>) daily2
                    else AList.map_entry day_str (\<lambda>st. st\<lparr>fail := fail st + 1\<rparr>) daily2);
          daily4 = AList.map_entry day_str (\<lambda>st. st\<lparr>total_time := fadd (total_time st) (rec_time record)\<rparr>) daily3
      in daily_loop rest daily4)"

definition compute_daily_stats :: "round_record list \<Rightarrow> (string \<times> stats) list" where
  "compute_daily_stats performance_data =
     map (\<lambda>(day_str, st). (day_str, add_avg_time st)) (daily_loop performance_data [])"

fun monthly_loop :: "round_record list \<Rightarrow> (string \<times> tally) list \<Rightarrow> (string \<times> tally) list" where
  "monthly_loop [] monthly = monthly"
| "monthly_loop (record # rest) monthly =
     (let m_key = rec_month_key record;
          monthly1 = (if m_key \<notin> fst ` set monthly then AList.update m_key new_tally monthly else monthly);
          monthly2 = AList.map_entry m_key (\<lambda>st. st\<lparr>rounds := rounds st + 1\<rparr>) monthly1;
          monthly3 = (if rec_result record = ''Success''
                      then AList.map_entry m_key (\<lambda>st. st\<lparr>success := success st + 1\<rparr>) monthly2
                      else AList.map_entry m_key (\<lambda>st. st\<lparr>fail := fail st + 1\<rparr>) monthly2);
          monthly4 = AList.map_entry m_key (\<lambda>st. st\<lparr>total_time := fadd (total_time st) (rec_time record)\<rparr>) monthly3
      in monthly_loop rest monthly4)"

definition compute_monthly_stats :: "round_record list \<Rightarrow> (string \<times> stats) list" where
  "compute_monthly_stats performance_data =
     map (\<lambda>(m_key, st). (m_key, add_avg_time st)) (monthly_loop performance_data [])"

section \<open>The game object\<close>

subsection \<open>Widgets\<close>

text \<open>
  The colours of \<^verbatim>\<open>__init__\<close>, the two Tk widget states the code uses, the texts of the
  message label, and the callbacks handed to \<^verbatim>\<open>self.after\<close>.
\<close>

datatype color = lightgray | red | green | yellow

definition default_color :: color where "default_color = lightgray"
definition highlight_color :: color where "highlight_color = red"
definition correct_select_color :: color where "correct_select_color = green"
definition wrong_select_color :: color where "wrong_select_color = yellow"

datatype widget_state = normal | disabled

record button =
  bg :: color
  state :: widget_state

datatype message =
    No_text
  | Watch_the_sequence int
  | Click_the_blocks
  | Replaying_the_sequence
  | Level_complete int
  | Wrong_block int

datatype callback = Hide_sequence_step nat | Show_sequence_step nat

subsection \<open>State\<close>

text \<open>
  The attributes of \<^verbatim>\<open>BlockMemoryGameSequence\<close>. \<open>timers\<close> holds the callbacks
  scheduled with \<^verbatim>\<open>self.after(delay, callback)\<close> that have not run yet.
\<close>

record game =
  grid_size :: int
  level :: int
  initial_sequence_length :: int
  buttons :: "button list list"
  correct_sequence :: "(nat \<times> nat) list"
  sequence_index :: nat
  showing_sequence :: bool
  round_start_time :: "real option"
  replay_count :: nat
  performance_data :: "round_record list"
  current_streak :: nat
  longest_streak :: nat
  message_label :: message
  next_button :: widget_state
  show_pattern_button :: widget_state
  timers :: "(nat \<times> callback) list"

subsection \<open>Library functions\<close>

text \<open>\<^verbatim>\<open>range(n)\<close>: empty when \<open>n \<le> 0\<close>.\<close>

definition py_range :: "int \<Rightarrow> nat list" where
  "py_range n = [0..<nat n]"

text \<open>
  \<^verbatim>\<open>random.sample(population, k)\<close> raises \<^verbatim>\<open>ValueError\<close> unless
  \<open>0 \<le> k \<le> len(population)\<close>, and otherwise returns \<open>k\<close> elements taken from
  pairwise different positions of the population, in selection order. The random source is
  the argument \<open>rng\<close>: its \<open>i\<close>-th value, reduced modulo the number of elements still
  in the pool, selects the \<open>i\<close>-th element, which leaves the pool.
\<close>

fun sample_from :: "(nat \<Rightarrow> nat) \<Rightarrow> nat \<Rightarrow> 'a list \<Rightarrow> nat \<Rightarrow> 'a list" where
  "sample_from rng i pool 0 = []"
| "sample_from rng i pool (Suc k) =
     (let j = rng i mod length pool
      in pool ! j # sample_from rng (Suc i) (take j pool @ drop (Suc j) pool) k)"

definition random_sample :: "(nat \<Rightarrow> nat) \<Rightarrow> 'a list \<Rightarrow> int \<Rightarrow> error + 'a list" where
  "random_sample rng population k =
     (if 0 \<le> k \<and> k \<le> int (length population)
      then Inr (sample_from rng 0 population (nat k))
      else Inl ValueError)"

text \<open>
  \<^verbatim>\<open>self.buttons[row][col].configure(...)\<close>: the button at that place is changed by
  \<open>f\<close>; indexing outside the lists raises \<^verbatim>\<open>IndexError\<close>.
\<close>

definition configure :: "(button \<Rightarrow> button) \<Rightarrow> button list list \<Rightarrow> nat \<times> nat \<Rightarrow> error + button list list" where
  "configure f bs p =
     (if fst p < length bs \<and> snd p < length (bs ! fst p)
      then Inr (bs[fst p := (bs ! fst p)[snd p := f (bs ! fst p ! snd p)]])
      else Inl IndexError)"

text \<open>
  \<^verbatim>\<open>for row in range(self.grid_size): for col in range(self.grid_size): ...\<close> visits
  \<open>all_positions\<close> in order; the same list is \<^verbatim>\<open>all_positions\<close> of
  \<^verbatim>\<open>start_new_round\<close>.
\<close>

definition all_positions :: "int \<Rightarrow> (nat \<times> nat) list" where
  "all_positions n = concat (map (\<lambda>r. map (\<lambda>c. (r, c)) (py_range n)) (py_range n))"

fun configure_each :: "(button \<Rightarrow> button) \<Rightarrow> button list list \<Rightarrow> (nat \<times> nat) list \<Rightarrow> error + button list list" where
  "configure_each f bs [] = Inr bs"
| "configure_each f bs (p # ps) =
     (case configure f bs p of Inl e \<Rightarrow> Inl e | Inr bs' \<Rightarrow> configure_each f bs' ps)"

subsection \<open>Methods\<close>

definition create_widgets :: "game \<Rightarrow> game" where
  "create_widgets s =
     s\<lparr>buttons := map (\<lambda>row. map (\<lambda>col. \<lparr>bg = default_color, state = normal\<rparr>) (py_range (grid_size s)))
                      (py_range (grid_size s)),
       message_label := No_text,
       next_button := disabled,
       show_pattern_button := disabled\<rparr>"

definition finish_showing_sequence :: "game \<Rightarrow> error + game" where
  "finish_showing_sequence s =
     (case configure_each (\<lambda>b. b\<lparr>state := normal\<rparr>) (buttons s) (all_positions (grid_size s)) of
        Inl e \<Rightarrow> Inl e
      | Inr bs \<Rightarrow>
          Inr (s\<lparr>showing_sequence := False, buttons := bs, message_label := Click_the_blocks,
                 show_pattern_button := normal\<rparr>))"

definition show_sequence_step :: "game \<Rightarrow> nat \<Rightarrow> error + game" where
  "show_sequence_step s index =
     (if index \<ge> length (correct_sequence s) then finish_showing_sequence s
      else
        (case configure (\<lambda>b. b\<lparr>bg := highlight_color\<rparr>) (buttons s) (correct_sequence s ! index) of
           Inl e \<Rightarrow> Inl e
         | Inr bs \<Rightarrow> Inr (s\<lparr>buttons := bs, timers := timers s @ [(1000, Hide_sequence_step index)]\<rparr>)))"

definition hide_sequence_step :: "game \<Rightarrow> nat \<Rightarrow> error + game" where
  "hide_sequence_step s index =
     (if index \<ge> length (correct_sequence s) then Inl IndexError
      else
        (case configure (\<lambda>b. b\<lparr>bg := default_color\<rparr>) (buttons s) (correct_sequence s ! index) of
           Inl e \<Rightarrow> Inl e
         | Inr bs \<Rightarrow> Inr (s\<lparr>buttons := bs, timers := timers s @ [(200, Show_sequence_step (index + 1))]\<rparr>)))"

text \<open>
  \<^verbatim>\<open>start_new_round\<close> reads \<^verbatim>\<open>time.time()\<close> (the argument \<open>t\<close>) and draws
  the sequence from the random source \<open>rng\<close>.
\<close>

definition start_new_round :: "(nat \<Rightarrow> nat) \<Rightarrow> real \<Rightarrow> game \<Rightarrow> error + game" where
  "start_new_round rng t s =
     (let s1 = s\<lparr>sequence_index := 0, showing_sequence := True, replay_count := 0,
                 next_button := disabled, show_pattern_button := disabled,
                 round_start_time := Some t\<rparr>
      in case configure_each (\<lambda>b. b\<lparr>bg := default_color, state := disabled\<rparr>) (buttons s1)
                (all_positions (grid_size s1)) of
           Inl e \<Rightarrow> Inl e
         | Inr bs \<Rightarrow>
            (let s2 = s1\<lparr>buttons := bs, message_label := Watch_the_sequence (level s1)\<rparr>;
                 total_cells = grid_size s2 * grid_size s2;
                 sequence_length = min total_cells (initial_sequence_length s2 + (level s2 - 1))
             in case random_sample rng (all_positions (grid_size s2)) sequence_length of
                  Inl e \<Rightarrow> Inl e
                | Inr sequence \<Rightarrow> show_sequence_step (s2\<lparr>correct_sequence := sequence\<rparr>) 0))"

text \<open>
  \<^verbatim>\<open>end_round\<close> reads \<^verbatim>\<open>time.time()\<close> (\<open>t\<close>) and \<^verbatim>\<open>datetime.now()\<close>
  (\<open>now\<close>); its parameter \<^verbatim>\<open>success\<close> is \<open>success'\<close> here. Both clock
  readings are finite floats, and \<^verbatim>\<open>time_taken\<close> is their floating-point difference.
  Subtracting the initial \<^verbatim>\<open>None\<close> of \<^verbatim>\<open>round_start_time\<close> would raise
  \<^verbatim>\<open>TypeError\<close>.
\<close>

definition end_round :: "real \<Rightarrow> datetime \<Rightarrow> game \<Rightarrow> bool \<Rightarrow> error + game" where
  "end_round t now s success' =
     (case configure_each (\<lambda>b. b\<lparr>state := disabled\<rparr>) (buttons s) (all_positions (grid_size s)) of
        Inl e \<Rightarrow> Inl e
      | Inr bs \<Rightarrow>
         (case round_start_time s of
            None \<Rightarrow> Inl TypeError
          | Some start \<Rightarrow>
             (let s1 = s\<lparr>buttons := bs\<rparr>;
                  time_taken = float_of (t - start);
                  s2 = (if success'
                        then (let s' = s1\<lparr>current_streak := current_streak s1 + 1\<rparr>
                              in if current_streak s' > longest_streak s'
                                 then s'\<lparr>longest_streak := current_streak s'\<rparr> else s')
                        else s1\<lparr>current_streak := 0\<rparr>);
                  record = \<lparr>rec_round = length (performance_data s2) + 1,
                            rec_level = level s2,
                            rec_result = (if success' then ''Success'' else ''Fail''),
                            rec_time = time_taken,
                            rec_replays = replay_count s2,
                            rec_date = date_of now,
                            rec_month_key = strftime_Ym now,
                            rec_streak_after_round = current_streak s2\<rparr>;
                  s3 = s2\<lparr>performance_data := performance_data s2 @ [record]\<rparr>;
                  s4 = (if success'
                        then s3\<lparr>message_label := Level_complete (level s3), level := level s3 + 1\<rparr>
                        else s3\<lparr>message_label := Wrong_block (level s3), level := 1\<rparr>)
              in Inr (s4\<lparr>next_button := normal, show_pattern_button := disabled\<rparr>))))"

definition on_block_click :: "real \<Rightarrow> datetime \<Rightarrow> game \<Rightarrow> nat \<Rightarrow> nat \<Rightarrow> error + game" where
  "on_block_click t now s row col =
     (if showing_sequence s then Inr s
      else if sequence_index s \<ge> length (correct_sequence s) then Inl IndexError
      else
        (let correct_position = correct_sequence s ! sequence_index s
         in if (row, col) = correct_position
            then
              (case configure (\<lambda>b. b\<lparr>bg := correct_select_color, state := disabled\<rparr>) (buttons s) (row, col) of
                 Inl e \<Rightarrow> Inl e
               | Inr bs \<Rightarrow>
                  (let s1 = s\<lparr>buttons := bs, sequence_index := sequence_index s + 1\<rparr>
                   in if sequence_index s1 = length (correct_sequence s1)
                      then end_round t now s1 True
                      else Inr s1))
            else
              (case configure (\<lambda>b. b\<lparr>bg := wrong_select_color, state := disabled\<rparr>) (buttons s) (row, col) of
                 Inl e \<Rightarrow> Inl e
               | Inr bs \<Rightarrow> end_round t now (s\<lparr>buttons := bs\<rparr>) False)))"

definition show_pattern_again :: "game \<Rightarrow> error + game" where
  "show_pattern_again s =
     (let s1 = s\<lparr>replay_count := replay_count s + 1, showing_sequence := True,
                 message_label := Replaying_the_sequence\<rparr>
      in case configure_each (\<lambda>b. b\<lparr>state := disabled\<rparr>) (buttons s1) (all_positions (grid_size s1)) of
           Inl e \<Rightarrow> Inl e
         | Inr bs \<Rightarrow> show_sequence_step (s1\<lparr>buttons := bs\<rparr>) 0)"

text \<open>
  \<^verbatim>\<open>__init__\<close>: the attributes, then \<^verbatim>\<open>create_widgets\<close>, then the first
  \<^verbatim>\<open>start_new_round\<close>.
\<close>

definition init :: "int \<Rightarrow> int \<Rightarrow> int \<Rightarrow> (nat \<Rightarrow> nat) \<Rightarrow> real \<Rightarrow> error + game" where
  "init grid_size0 initial_sequence_length0 initial_level rng t =
     start_new_round rng t
       (create_widgets
          \<lparr>grid_size = grid_size0, level = initial_level,
           initial_sequence_length = initial_sequence_length0,
           buttons = [], correct_sequence = [], sequence_index = 0, showing_sequence = False,
           round_start_time = None, replay_count = 0, performance_data = [],
           current_streak = 0, longest_streak = 0, message_label = No_text,
           next_button = disabled, show_pattern_button = disabled, timers = []\<rparr>)"

subsection \<open>Events\<close>

text \<open>
  What Tk does with the widgets the code builds. A button runs its \<^verbatim>\<open>command\<close> only
  while its state is \<^verbatim>\<open>normal\<close>; the cell button at \<open>(row, col)\<close> was created with the
  command \<^verbatim>\<open>lambda r=row, c=col: self.on_block_click(r, c)\<close>. A scheduled callback runs
  once and leaves the queue; which pending callback runs next is the argument \<open>k\<close>.
\<close>

definition click_button :: "real \<Rightarrow> datetime \<Rightarrow> game \<Rightarrow> nat \<Rightarrow> nat \<Rightarrow> error + game" where
  "click_button t now s row col =
     (if row < length (buttons s) \<and> col < length (buttons s ! row) \<and>
         state (buttons s ! row ! col) = normal
      then on_block_click t now s row col
      else Inr s)"

definition fire_timer :: "game \<Rightarrow> nat \<Rightarrow> error + game" where
  "fire_timer s k =
     (if k < length (timers s)
      then
        (let s1 = s\<lparr>timers := take k (timers s) @ drop (Suc k) (timers s)\<rparr>
         in case snd (timers s ! k) of
              Hide_sequence_step index \<Rightarrow> hide_sequence_step s1 index
            | Show_sequence_step index \<Rightarrow> show_sequence_step s1 index)
      else Inr s)"

datatype event =
    Click_block real datetime nat nat
  | Click_next_round "nat \<Rightarrow> nat" real
  | Click_show_pattern
  | Timer nat

fun handle_event :: "game \<Rightarrow> event \<Rightarrow> error + game" where
  "handle_event s (Click_block t now row col) = click_button t now s row col"
| "handle_event s (Click_next_round rng t) =
     (if next_button s = normal then start_new_round rng t s else Inr s)"
| "handle_event s Click_show_pattern =
     (if show_pattern_button s = normal then show_pattern_again s else Inr s)"
| "handle_event s (Timer k) = fire_timer s k"

fun run :: "game \<Rightarrow> event list \<Rightarrow> error + game" where
  "run s [] = Inr s"
| "run s (e # es) = (case handle_event s e of Inl err \<Rightarrow> Inl err | Inr s' \<Rightarrow> run s' es)"

section \<open>Auxiliary definitions\<close>

subsection \<open>Statistics\<close>

text \<open>
  The four updates of one loop iteration, taken together, and the loop over an arbitrary
  key function; \<open>daily_loop\<close> and \<open>monthly_loop\<close> are its two instances.
\<close>

definition bump :: "round_record \<Rightarrow> tally \<Rightarrow> tally" where
  "bump record st =
     (if rec_result record = ''Success''
      then st\<lparr>rounds := rounds st + 1, success := success st + 1, total_time := fadd (total_time st) (rec_time record)\<rparr>
      else st\<lparr>rounds := rounds st + 1, fail := fail st + 1, total_time := fadd (total_time st) (rec_time record)\<rparr>)"

definition tally_step :: "string \<Rightarrow> round_record \<Rightarrow> (string \<times> tally) list \<Rightarrow> (string \<times> tally) list" where
  "tally_step k record d =
     AList.map_entry k (bump record) (if k \<notin> fst ` set d then AList.update k new_tally d else d)"

fun tally_loop :: "(round_record \<Rightarrow> string) \<Rightarrow> round_record list \<Rightarrow> (string \<times> tally) list \<Rightarrow> (string \<times> tally) list" where
  "tally_loop key [] d = d"
| "tally_loop key (record # rest) d = tally_loop key rest (tally_step (key record) record d)"

definition entry_or_new :: "(string \<times> tally) list \<Rightarrow> string \<Rightarrow> tally" where
  "entry_or_new d k = (case map_of d k of None \<Rightarrow> new_tally | Some st \<Rightarrow> st)"

text \<open>
  The summary of one group of records: the number of rounds, of successes and of fails, the
  floating-point total of the times (added one by one, in the order of the log, to
  \<^verbatim>\<open>0.0\<close>), and the floating-point quotient of that total by the number of rounds.
\<close>

definition float_total :: "pyfloat list \<Rightarrow> pyfloat" where
  "float_total ts = foldl fadd (Finite 0) ts"

definition summary_of_group :: "round_record list \<Rightarrow> stats" where
  "summary_of_group G =
     \<lparr>rounds = length G,
      success = length (filter (\<lambda>r. rec_result r = ''Success'') G),
      fail = length (filter (\<lambda>r. rec_result r = ''Fail'') G),
      total_time = float_total (map rec_time G),
      avg_time = fdiv (float_total (map rec_time G)) (length G)\<rparr>"

text \<open>Example logs: three rounds on one day, and three rounds over two days.\<close>

definition example_record :: "string \<Rightarrow> real \<Rightarrow> round_record" where
  "example_record res t =
     \<lparr>rec_round = 1, rec_level = 1, rec_result = res, rec_time = Finite t, rec_replays = 0,
      rec_date = \<lparr>year = 2025, month = 2, day = 3\<rparr>, rec_month_key = ''2025-02'',
      rec_streak_after_round = 0\<rparr>"

definition example_log :: "round_record list" where
  "example_log = [example_record ''Success'' 1, example_record ''Success'' 2, example_record ''Fail'' 3]"

text \<open>
  A log of two rounds on one day with the times \<open>2\<^sup>5\<^sup>3\<close> and 1 (both are doubles; their sum
  \<open>2\<^sup>5\<^sup>3 + 1\<close> is not).
\<close>

definition rounding_log :: "round_record list" where
  "rounding_log = [example_record ''Success'' 9007199254740992, example_record ''Success'' 1]"

text \<open>The sum of the round counts of a dictionary, and the balance of its entries.\<close>

definition total_rounds :: "(string \<times> tally) list \<Rightarrow> nat" where
  "total_rounds d = sum_list (map (\<lambda>(k, st). rounds st) d)"

definition balanced :: "(string \<times> tally) list \<Rightarrow> bool" where
  "balanced d \<longleftrightarrow> (\<forall>(k, st)\<in>set d. success st + fail st = rounds st)"

definition two_day_log :: "round_record list" where
  "two_day_log =
     [example_record ''Success'' 1,
      (example_record ''Fail'' 4)\<lparr>rec_date := \<lparr>year = 2025, month = 3, day = 2\<rparr>, rec_month_key := ''2025-03''\<rparr>,
      example_record ''Fail'' 2]"

subsection \<open>Board, invariants and examples\<close>

text \<open>
  A place lies on the board when both indices are in range; the board is in order when it
  has \<open>grid_size\<close> rows of \<open>grid_size\<close> buttons, as \<^verbatim>\<open>create_widgets\<close> builds it.
\<close>

definition in_board :: "button list list \<Rightarrow> nat \<times> nat \<Rightarrow> bool" where
  "in_board bs p \<longleftrightarrow> fst p < length bs \<and> snd p < length (bs ! fst p)"

definition board_ok :: "game \<Rightarrow> bool" where
  "board_ok s \<longleftrightarrow> map length (buttons s) = replicate (nat (grid_size s)) (nat (grid_size s))"

definition sequence_in_grid :: "game \<Rightarrow> bool" where
  "sequence_in_grid s \<longleftrightarrow>
     (\<forall>p\<in>set (correct_sequence s). fst p < nat (grid_size s) \<and> snd p < nat (grid_size s))"

definition well_formed :: "game \<Rightarrow> bool" where
  "well_formed s \<longleftrightarrow> board_ok s \<and> sequence_in_grid s \<and> round_start_time s \<noteq> None"

text \<open>The attributes that only \<^verbatim>\<open>end_round\<close> changes.\<close>

definition score :: "game \<Rightarrow> int \<times> round_record list \<times> nat \<times> nat" where
  "score s = (level s, performance_data s, current_streak s, longest_streak s)"

text \<open>
  An example: a 2 by 2 game at level 1 awaiting the second click of the sequence
  \<open>[(0, 0), (1, 1)]\<close>, and the states after the right and after a wrong click.
\<close>

definition example_now :: datetime where
  "example_now = \<lparr>year = 2025, month = 2, day = 3, hour = 12, minute = 30, second = 0\<rparr>"

definition example_game :: game where
  "example_game =
     \<lparr>grid_size = 2, level = 1, initial_sequence_length = 2,
      buttons = [[\<lparr>bg = green, state = disabled\<rparr>, \<lparr>bg = lightgray, state = normal\<rparr>],
                 [\<lparr>bg = lightgray, state = normal\<rparr>, \<lparr>bg = lightgray, state = normal\<rparr>]],
      correct_sequence = [(0, 0), (1, 1)], sequence_index = 1, showing_sequence = False,
      round_start_time = Some 10, replay_count = 0, performance_data = [],
      current_streak = 0, longest_streak = 0, message_label = Click_the_blocks,
      next_button = disabled, show_pattern_button = normal, timers = []\<rparr>"

text \<open>
  The longest run of consecutive successes in a list of outcomes: the maximum, over all
  starting places, of the length of the run of successes that starts there. The run that
  ends the list is \<open>trailing_run\<close>. The outcomes seen so far are those of the log.
\<close>

fun max_run :: "bool list \<Rightarrow> nat" where
  "max_run [] = 0"
| "max_run (b # bs) = max (length (takeWhile id (b # bs))) (max_run bs)"

definition trailing_run :: "bool list \<Rightarrow> nat" where
  "trailing_run bs = length (takeWhile id (rev bs))"

definition outcomes :: "game \<Rightarrow> bool list" where
  "outcomes s = map (\<lambda>r. rec_result r = ''Success'') (performance_data s)"

definition streaks_match_log :: "game \<Rightarrow> bool" where
  "streaks_match_log s \<longleftrightarrow>
     longest_streak s = max_run (outcomes s) \<and> current_streak s = trailing_run (outcomes s)"

text \<open>The round numbers of a log are 1, 2, ..., its length.\<close>

definition numbered :: "round_record list \<Rightarrow> bool" where
  "numbered rs \<longleftrightarrow> map rec_round rs = [1..<length rs + 1]"

definition example_won :: game where
  "example_won =
     example_game\<lparr>
       buttons := [[\<lparr>bg = green, state = disabled\<rparr>, \<lparr>bg = lightgray, state = disabled\<rparr>],
                   [\<lparr>bg = lightgray, state = disabled\<rparr>, \<lparr>bg = green, state = disabled\<rparr>]],
       sequence_index := 2, current_streak := 1, longest_streak := 1,
       performance_data := [\<lparr>rec_round = 1, rec_level = 1, rec_result = ''Success'', rec_time = Finite 2,
          rec_replays = 0, rec_date = \<lparr>year = 2025, month = 2, day = 3\<rparr>,
          rec_month_key = ''2025-02'', rec_streak_after_round = 1\<rparr>],
       message_label := Level_complete 1, level := 2, next_button := normal,
       show_pattern_button := disabled\<rparr>"

definition example_lost :: game where
  "example_lost =
     example_game\<lparr>
       buttons := [[\<lparr>bg = green, state = disabled\<rparr>, \<lparr>bg = yellow, state = disabled\<rparr>],
                   [\<lparr>bg = lightgray, state = disabled\<rparr>, \<lparr>bg = lightgray, state = disabled\<rparr>]],
       performance_data := [\<lparr>rec_round = 1, rec_level = 1, rec_result = ''Fail'', rec_time = Finite 2,
          rec_replays = 0, rec_date = \<lparr>year = 2025, month = 2, day = 3\<rparr>,
          rec_month_key = ''2025-02'', rec_streak_after_round = 0\<rparr>],
       message_label := Wrong_block 1, level := 1, next_button := normal,
       show_pattern_button := disabled\<rparr>"

subsection \<open>Phases of a round\<close>

text \<open>
  The code keeps no phase variable. The sequence is on display while \<open>showing_sequence\<close>
  is set; \<^verbatim>\<open>end_round\<close> enables the "Next Round" button and \<^verbatim>\<open>start_new_round\<close>
  disables it, so a round is resolved while that button is enabled, and awaits input when
  neither holds. \<open>resolved_with s s' res\<close>: from \<open>s\<close> to \<open>s'\<close> the round was resolved,
  with one new record whose result is \<open>res\<close>.
\<close>

definition awaiting_input :: "game \<Rightarrow> bool" where
  "awaiting_input s \<longleftrightarrow> \<not> showing_sequence s \<and> next_button s = disabled"

definition resolved :: "game \<Rightarrow> bool" where
  "resolved s \<longleftrightarrow> next_button s = normal"

definition resolved_with :: "game \<Rightarrow> game \<Rightarrow> string \<Rightarrow> bool" where
  "resolved_with s s' res \<longleftrightarrow>
     next_button s' = normal \<and> performance_data s' \<noteq> [] \<and>
     butlast (performance_data s') = performance_data s \<and>
     rec_result (last (performance_data s')) = res"

text \<open>
  Further states of the example: after a click delivered to the lost round, during a replay,
  and at the start of the round after the won one (random source constantly 1).
\<close>

definition example_lost_again :: game where
  "example_lost_again =
     example_lost\<lparr>
       buttons := [[\<lparr>bg = green, state = disabled\<rparr>, \<lparr>bg = yellow, state = disabled\<rparr>],
                   [\<lparr>bg = yellow, state = disabled\<rparr>, \<lparr>bg = lightgray, state = disabled\<rparr>]],
       performance_data := performance_data example_lost @
         [\<lparr>rec_round = 2, rec_level = 1, rec_result = ''Fail'', rec_time = Finite 3,
           rec_replays = 0, rec_date = \<lparr>year = 2025, month = 2, day = 3\<rparr>,
           rec_month_key = ''2025-02'', rec_streak_after_round = 0\<rparr>]\<rparr>"

definition example_replaying :: game where
  "example_replaying =
     example_game\<lparr>
       buttons := [[\<lparr>bg = red, state = disabled\<rparr>, \<lparr>bg = lightgray, state = disabled\<rparr>],
                   [\<lparr>bg = lightgray, state = disabled\<rparr>, \<lparr>bg = lightgray, state = disabled\<rparr>]],
       showing_sequence := True, replay_count := 1, message_label := Replaying_the_sequence,
       timers := [(1000, Hide_sequence_step 0)]\<rparr>"

definition example_next :: game where
  "example_next =
     example_won\<lparr>
       buttons := [[\<lparr>bg = lightgray, state = disabled\<rparr>, \<lparr>bg = red, state = disabled\<rparr>],
                   [\<lparr>bg = lightgray, state = disabled\<rparr>, \<lparr>bg = lightgray, state = disabled\<rparr>]],
       correct_sequence := [(0, 1), (1, 0), (1, 1)], sequence_index := 0,
       showing_sequence := True, round_start_time := Some 20, replay_count := 0,
       message_label := Watch_the_sequence 2, next_button := disabled,
       show_pattern_button := disabled, timers := [(1000, Hide_sequence_step 0)]\<rparr>"

subsection \<open>A replay, and a replay requested twice\<close>

text \<open>
  The example from the start of the program: \<^verbatim>\<open>__init__\<close> with a 2 by 2 grid, initial
  sequence length 2 and level 1 gives \<open>example_initial\<close>; the display and a first right
  click lead to \<open>example_game\<close>. \<open>example_replayed\<close> is the game after one complete
  replay. \<open>stale_replay_events\<close>: "Show Pattern Again" is pressed twice, the callbacks of
  the first replay run, each ahead of those of the second, a wrong cell is clicked when the
  first replay has ended, and the second replay then runs to its end.
\<close>

definition example_initial :: game where
  "example_initial =
     \<lparr>grid_size = 2, level = 1, initial_sequence_length = 2,
      buttons = [[\<lparr>bg = red, state = disabled\<rparr>, \<lparr>bg = lightgray, state = disabled\<rparr>],
                 [\<lparr>bg = lightgray, state = disabled\<rparr>, \<lparr>bg = lightgray, state = disabled\<rparr>]],
      correct_sequence = [(0, 0), (1, 1)], sequence_index = 0, showing_sequence = True,
      round_start_time = Some 10, replay_count = 0, performance_data = [],
      current_streak = 0, longest_streak = 0, message_label = Watch_the_sequence 1,
      next_button = disabled, show_pattern_button = disabled,
      timers = [(1000, Hide_sequence_step 0)]\<rparr>"

definition example_replayed :: game where
  "example_replayed =
     example_game\<lparr>
       buttons := [[\<lparr>bg = lightgray, state = normal\<rparr>, \<lparr>bg = lightgray, state = normal\<rparr>],
                   [\<lparr>bg = lightgray, state = normal\<rparr>, \<lparr>bg = lightgray, state = normal\<rparr>]],
       replay_count := 1\<rparr>"

definition stale_replay_events :: "event list" where
  "stale_replay_events =
     [Click_show_pattern, Click_show_pattern,
      Timer 0, Timer 1, Timer 0, Timer 1, Timer 0, Timer 1,
      Click_block 12 example_now 0 1,
      Timer 0, Timer 0]"

definition example_replayed_twice :: game where
  "example_replayed_twice =
     example_game\<lparr>
       buttons := [[\<lparr>bg = lightgray, state = normal\<rparr>, \<lparr>bg = lightgray, state = normal\<rparr>],
                   [\<lparr>bg = lightgray, state = normal\<rparr>, \<lparr>bg = lightgray, state = normal\<rparr>]],
       replay_count := 2, timers := [(1000, Hide_sequence_step 1)]\<rparr>"

definition example_lost_stale :: game where
  "example_lost_stale =
     example_replayed_twice\<lparr>
       buttons := [[\<lparr>bg = lightgray, state = disabled\<rparr>, \<lparr>bg = yellow, state = disabled\<rparr>],
                   [\<lparr>bg = lightgray, state = disabled\<rparr>, \<lparr>bg = lightgray, state = disabled\<rparr>]],
       performance_data := [\<lparr>rec_round = 1, rec_level = 1, rec_result = ''Fail'', rec_time = Finite 2,
          rec_replays = 2, rec_date = \<lparr>year = 2025, month = 2, day = 3\<rparr>,
          rec_month_key = ''2025-02'', rec_streak_after_round = 0\<rparr>],
       message_label := Wrong_block 1, next_button := normal, show_pattern_button := disabled\<rparr>"

definition example_reopened :: game where
  "example_reopened =
     example_game\<lparr>
       buttons := [[\<lparr>bg = lightgray, state = normal\<rparr>, \<lparr>bg = yellow, state = normal\<rparr>],
                   [\<lparr>bg = lightgray, state = normal\<rparr>, \<lparr>bg = lightgray, state = normal\<rparr>]],
       replay_count := 2,
       performance_data := [\<lparr>rec_round = 1, rec_level = 1, rec_result = ''Fail'', rec_time = Finite 2,
          rec_replays = 2, rec_date = \<lparr>year = 2025, month = 2, day = 3\<rparr>,
          rec_month_key = ''2025-02'', rec_streak_after_round = 0\<rparr>],
       next_button := normal\<rparr>"

definition example_refinalized :: game where
  "example_refinalized =
     example_reopened\<lparr>
       buttons := [[\<lparr>bg = lightgray, state = disabled\<rparr>, \<lparr>bg = yellow, state = disabled\<rparr>],
                   [\<lparr>bg = yellow, state = disabled\<rparr>, \<lparr>bg = lightgray, state = disabled\<rparr>]],
       performance_data := performance_data example_reopened @
         [\<lparr>rec_round = 2, rec_level = 1, rec_result = ''Fail'', rec_time = Finite 3,
           rec_replays = 2, rec_date = \<lparr>year = 2025, month = 2, day = 3\<rparr>,
           rec_month_key = ''2025-02'', rec_streak_after_round = 0\<rparr>],
       message_label := Wrong_block 1, show_pattern_button := disabled\<rparr>"

subsection \<open>What a round depends on\<close>

text \<open>
  \<open>play s\<close> collects what \<^verbatim>\<open>on_block_click\<close> and \<^verbatim>\<open>end_round\<close> read of the game,
  the number of replays apart: the display flag, the cursor, the sequence, the size and the
  shape of the board, the start time, the "Next Round" button, the level, the streaks, and
  the log without the \<^verbatim>\<open>replays\<close> entry of its records. \<open>selections s cs\<close> calls
  \<^verbatim>\<open>on_block_click\<close> for each selection of \<open>cs\<close> in turn, each with the clock reading
  and the date at which it is made.
\<close>

definition without_replays :: "round_record \<Rightarrow> nat \<times> int \<times> string \<times> pyfloat \<times> date \<times> string \<times> nat" where
  "without_replays r =
     (rec_round r, rec_level r, rec_result r, rec_time r, rec_date r, rec_month_key r,
      rec_streak_after_round r)"

definition play ::
  "game \<Rightarrow> bool \<times> nat \<times> (nat \<times> nat) list \<times> int \<times> nat list \<times> real option \<times> widget_state \<times>
     int \<times> nat \<times> nat \<times> (nat \<times> int \<times> string \<times> pyfloat \<times> date \<times> string \<times> nat) list" where
  "play s =
     (showing_sequence s, sequence_index s, correct_sequence s, grid_size s,
      map length (buttons s), round_start_time s, next_button s, level s, current_streak s,
      longest_streak s, map without_replays (performance_data s))"

fun selections :: "game \<Rightarrow> (real \<times> datetime \<times> nat \<times> nat) list \<Rightarrow> error + game" where
  "selections s [] = Inr s"
| "selections s ((t, now, row, col) # cs) =
     (case on_block_click t now s row col of Inl e \<Rightarrow> Inl e | Inr s' \<Rightarrow> selections s' cs)"

text \<open>
  The example after a replay: the cell \<open>(0, 0)\<close>, selected before the replay, is pressed
  again, then the cell \<open>(1, 1)\<close>.
\<close>

definition example_replayed_lost :: game where
  "example_replayed_lost =
     example_replayed\<lparr>
       buttons := [[\<lparr>bg = yellow, state = disabled\<rparr>, \<lparr>bg = lightgray, state = disabled\<rparr>],
                   [\<lparr>bg = lightgray, state = disabled\<rparr>, \<lparr>bg = lightgray, state = disabled\<rparr>]],
       performance_data := [\<lparr>rec_round = 1, rec_level = 1, rec_result = ''Fail'', rec_time = Finite 2,
          rec_replays = 1, rec_date = \<lparr>year = 2025, month = 2, day = 3\<rparr>,
          rec_month_key = ''2025-02'', rec_streak_after_round = 0\<rparr>],
       message_label := Wrong_block 1, level := 1, next_button := normal,
       show_pattern_button := disabled\<rparr>"

section \<open>Floating point: properties\<close>

text \<open>
  Integers below \<open>2\<^sup>5\<^sup>3\<close> in magnitude are doubles, so rounding leaves them as they are;
  \<open>2\<^sup>5\<^sup>3 + 1\<close> is not, and rounds to \<open>2\<^sup>5\<^sup>3\<close>.
\<close>

lemma round_half_even_of_int: "round_half_even (of_int k) = k"
  by (simp add: round_half_even_def)

lemma fl_binade:
  assumes "2 ^ n \<le> \<bar>x\<bar>" and "\<bar>x\<bar> < 2 ^ Suc n"
  shows "fl x = of_int (round_half_even (x / 2 powr (real n - 52))) * 2 powr (real n - 52)"
proof -
  from assms(1) have pos: "0 < \<bar>x\<bar>"
    by (smt (verit) zero_less_power)
  have "(2::real) powr real_of_int (int n) = 2 ^ n"
    by (simp add: powr_realpow)
  moreover have "(2::real) powr real_of_int (int n + 1) = 2 ^ Suc n"
    using powr_realpow [of 2 "Suc n"] by (simp add: add.commute)
  ultimately have "2 powr real_of_int (int n) \<le> \<bar>x\<bar> \<and> \<bar>x\<bar> < 2 powr real_of_int (int n + 1)"
    using assms by (simp only:)
  with pos have "\<lfloor>log 2 \<bar>x\<bar>\<rfloor> = int n"
    by (simp add: floor_log_eq_powr_iff)
  moreover from pos have "x \<noteq> 0"
    by simp
  ultimately show ?thesis
    by (simp add: fl_def Let_def)
qed

lemma fl_of_int:
  assumes "\<bar>m\<bar> < 2 ^ 53"
  shows "fl (of_int m) = of_int m"
proof (cases "m = 0")
  case True
  then show ?thesis by (simp add: fl_def)
next
  case False
  let ?x = "of_int m :: real"
  let ?e = "\<lfloor>log 2 \<bar>?x\<bar>\<rfloor>"
  from False have "1 \<le> \<bar>m\<bar>"
    by simp
  then have "(of_int 1 :: real) \<le> of_int \<bar>m\<bar>"
    by (simp only: of_int_le_iff)
  then have one: "1 \<le> \<bar>?x\<bar>"
    by simp
  then have e0: "0 \<le> ?e"
    by simp
  from assms have "(of_int \<bar>m\<bar> :: real) < of_int (2 ^ 53)"
    by (simp only: of_int_less_iff)
  then have "\<bar>?x\<bar> < 2 ^ 53"
    by simp
  then have "\<bar>?x\<bar> < 2 powr 53"
    by simp
  with one have "log 2 \<bar>?x\<bar> < 53"
    by (subst log_less_iff) simp_all
  then have e52: "?e \<le> 52"
    by (simp add: floor_less_iff [symmetric] floor_le_iff)
  define d where "d = nat (52 - ?e)"
  from e0 e52 have me: "max ?e (- 1022) - 52 = - int d"
    by (simp add: d_def)
  have p: "(2::real) powr - real d = 1 / 2 ^ d"
    by (simp add: powr_minus powr_realpow inverse_eq_divide)
  have r: "round_half_even (?x * 2 ^ d) = m * 2 ^ d"
    using round_half_even_of_int [of "m * 2 ^ d"] by simp
  from False have "fl ?x = of_int (round_half_even (?x / 2 powr - real d)) * 2 powr - real d"
    by (simp add: fl_def Let_def me)
  also have "\<dots> = of_int (round_half_even (?x * 2 ^ d)) * (1 / 2 ^ d)"
    by (simp add: p)
  also have "\<dots> = ?x"
    by (simp add: r)
  finally show ?thesis .
qed

lemma fl_numeral: "numeral k < (2 ^ 53 :: int) \<Longrightarrow> fl (numeral k) = numeral k"
  using fl_of_int [of "numeral k"] by simp

lemma fl_nat: "n < 2 ^ 53 \<Longrightarrow> fl (real n) = real n"
  using fl_of_int [of "int n"] by simp

lemma fl_0: "fl 0 = 0"
  by (simp add: fl_def)

lemma fl_1: "fl 1 = 1"
  using fl_of_int [of 1] by simp

lemma fl_2_53: "fl 9007199254740992 = 9007199254740992"
  using fl_binade [of 53 9007199254740992] by (simp add: round_half_even_def)

lemma fl_2_53_plus_1: "fl 9007199254740993 = 9007199254740992"
  using fl_binade [of 53 9007199254740993] by (simp add: round_half_even_def)

lemma fl_3_2: "fl (3 / 2) = 3 / 2"
  using fl_binade [of 0 "3 / 2"] by (simp add: round_half_even_def powr_minus)

lemma float_of_finite: "\<bar>fl x\<bar> < 2 ^ 1024 \<Longrightarrow> float_of x = Finite (fl x)"
  by (auto simp: float_of_def)

lemma float_of_numeral: "numeral k < (2 ^ 53 :: int) \<Longrightarrow> float_of (numeral k) = Finite (numeral k)"
proof -
  assume k: "numeral k < (2 ^ 53 :: int)"
  then have "(of_int (numeral k) :: real) < of_int (2 ^ 53)"
    by (simp only: of_int_less_iff)
  then have "(numeral k :: real) < 2 ^ 53"
    by simp
  also have "(2 ^ 53 :: real) \<le> 2 ^ 1024"
    by (rule power_increasing) simp_all
  finally have "\<bar>numeral k :: real\<bar> < 2 ^ 1024"
    by simp
  with fl_numeral [OF k] show ?thesis
    by (simp add: float_of_finite)
qed

lemma float_of_0: "float_of 0 = Finite 0"
  by (simp add: float_of_finite fl_0)

lemma float_of_1: "float_of 1 = Finite 1"
  by (simp add: float_of_finite fl_1)

lemma float_of_3_2: "float_of (3 / 2) = Finite (3 / 2)"
  by (simp add: float_of_finite fl_3_2)

lemma float_of_2_53: "float_of 9007199254740992 = Finite 9007199254740992"
  by (simp add: float_of_finite fl_2_53)

lemma float_of_2_53_plus_1: "float_of 9007199254740993 = Finite 9007199254740992"
  by (simp add: float_of_finite fl_2_53_plus_1)

text \<open>
  Powers of two are doubles up to \<open>2\<^sup>1\<^sup>0\<^sup>2\<^sup>3\<close>; two times of \<open>2\<^sup>1\<^sup>0\<^sup>2\<^sup>3\<close> add up to
  \<^verbatim>\<open>inf\<close>, and so does their average.
\<close>

lemma fl_power2: "fl (2 ^ n) = 2 ^ n"
proof -
  have "(2::real) ^ n / 2 powr (real n - 52) = of_int (2 ^ 52)"
    by (simp add: powr_diff powr_realpow)
  then have "round_half_even ((2::real) ^ n / 2 powr (real n - 52)) = 2 ^ 52"
    by (simp only: round_half_even_of_int)
  with fl_binade [of n "2 ^ n"] have "fl (2 ^ n) = of_int (2 ^ 52) * 2 powr (real n - 52)"
    by simp
  also have "\<dots> = 2 ^ n"
    by (simp add: powr_diff powr_realpow)
  finally show ?thesis .
qed

lemma float_total_overflow:
  "float_total [Finite (2 ^ 1023), Finite (2 ^ 1023)] = PosInf \<and> fdiv PosInf 2 = PosInf"
proof -
  have "(2::real) ^ 1023 < 2 ^ 1024"
    by (rule power_strict_increasing) simp_all
  then have 1: "float_of (2 ^ 1023) = Finite (2 ^ 1023)"
    by (simp only: float_of_def fl_power2) simp
  have "(2::real) ^ 1023 + 2 ^ 1023 = 2 ^ 1024"
    by simp
  then have 2: "float_of (2 ^ 1023 + 2 ^ 1023) = PosInf"
    by (simp only: float_of_def fl_power2) simp
  have "float_total [Finite (2 ^ 1023), Finite (2 ^ 1023)] =
      fadd (fadd (Finite 0) (Finite (2 ^ 1023))) (Finite (2 ^ 1023))"
    by (simp only: float_total_def foldl.simps)
  also have "\<dots> = fadd (float_of (2 ^ 1023)) (Finite (2 ^ 1023))"
    by (simp only: fadd.simps add_0)
  also have "\<dots> = PosInf"
    by (simp only: 1 fadd.simps 2)
  finally show ?thesis
    by simp
qed

section \<open>Statistics: properties\<close>

text \<open>
  Claim C9. Computing the daily summary or the monthly summary over an empty performance
  log returns an empty mapping; both functions are total, so neither fails.
\<close>

theorem empty_log_stats_empty:
  "compute_daily_stats [] = [] \<and> compute_monthly_stats [] = []"
  by (simp add: compute_daily_stats_def compute_monthly_stats_def)

lemma map_entry_twice: "AList.map_entry k f (AList.map_entry k g d) = AList.map_entry k (f \<circ> g) d"
  by (induction d) auto

lemma bump_success:
  "rec_result record = ''Success'' \<Longrightarrow>
   bump record = (\<lambda>st. st\<lparr>rounds := rounds st + 1, success := success st + 1, total_time := fadd (total_time st) (rec_time record)\<rparr>)"
  by (simp add: bump_def fun_eq_iff)

lemma bump_fail:
  "rec_result record \<noteq> ''Success'' \<Longrightarrow>
   bump record = (\<lambda>st. st\<lparr>rounds := rounds st + 1, fail := fail st + 1, total_time := fadd (total_time st) (rec_time record)\<rparr>)"
  by (simp add: bump_def fun_eq_iff)

lemma daily_loop_tally: "daily_loop rs d = tally_loop (\<lambda>r. isoformat (rec_date r)) rs d"
  by (induction rs arbitrary: d)
     (simp_all add: Let_def tally_step_def map_entry_twice bump_success bump_fail comp_def)

lemma monthly_loop_tally: "monthly_loop rs d = tally_loop rec_month_key rs d"
  by (induction rs arbitrary: d)
     (simp_all add: Let_def tally_step_def map_entry_twice bump_success bump_fail comp_def)

lemma map_of_tally_step:
  "map_of (tally_step k record d) = (map_of d)(k \<mapsto> bump record (entry_or_new d k))"
proof (cases "k \<in> fst ` set d")
  case True
  then obtain st where "map_of d k = Some st"
    by (meson domD domI map_of_eq_None_iff not_None_eq)
  with True show ?thesis
    by (auto simp: tally_step_def AList.map_of_map_entry entry_or_new_def fun_eq_iff)
next
  case False
  then have "map_of d k = None"
    by (simp add: map_of_eq_None_iff)
  with False show ?thesis
    by (auto simp: tally_step_def AList.map_of_map_entry AList.update_conv' entry_or_new_def fun_eq_iff)
qed

lemma map_of_tally_loop:
  "map_of (tally_loop key rs d) k =
     (if filter (\<lambda>r. key r = k) rs = [] then map_of d k
      else Some (foldl (\<lambda>st r. bump r st) (entry_or_new d k) (filter (\<lambda>r. key r = k) rs)))"
  by (induction rs arbitrary: d) (auto simp: map_of_tally_step entry_or_new_def)

lemma foldl_bump_rounds: "rounds (foldl (\<lambda>st r. bump r st) st G) = rounds st + length G"
  by (induction G arbitrary: st) (auto simp: bump_def)

lemma foldl_bump_success:
  "success (foldl (\<lambda>st r. bump r st) st G) = success st + length (filter (\<lambda>r. rec_result r = ''Success'') G)"
  by (induction G arbitrary: st) (auto simp: bump_def)

lemma foldl_bump_fail:
  "fail (foldl (\<lambda>st r. bump r st) st G) = fail st + length (filter (\<lambda>r. rec_result r \<noteq> ''Success'') G)"
  by (induction G arbitrary: st) (auto simp: bump_def)

lemma foldl_bump_total_time:
  "total_time (foldl (\<lambda>st r. bump r st) st G) =
     foldl fadd (total_time st) (map rec_time G)"
  by (induction G arbitrary: st) (auto simp: bump_def)

lemma keys_tally_step: "fst ` set (tally_step k record d) = insert k (fst ` set d)"
  by (auto simp: tally_step_def AList.dom_map_entry AList.dom_update)

lemma keys_tally_loop: "fst ` set (tally_loop key rs d) = fst ` set d \<union> key ` set rs"
  by (induction rs arbitrary: d) (auto simp: keys_tally_step)

lemma distinct_tally_step: "distinct (map fst d) \<Longrightarrow> distinct (map fst (tally_step k record d))"
  by (simp add: tally_step_def AList.distinct_map_entry AList.distinct_update)

lemma distinct_tally_loop: "distinct (map fst d) \<Longrightarrow> distinct (map fst (tally_loop key rs d))"
  by (induction rs arbitrary: d) (auto simp: distinct_tally_step)

lemma foldl_bump_new:
  "foldl (\<lambda>st r. bump r st) new_tally G =
     \<lparr>rounds = length G, success = length (filter (\<lambda>r. rec_result r = ''Success'') G),
      fail = length (filter (\<lambda>r. rec_result r \<noteq> ''Success'') G),
      total_time = float_total (map rec_time G)\<rparr>"
  using foldl_bump_rounds [of new_tally G] foldl_bump_success [of new_tally G]
    foldl_bump_fail [of new_tally G] foldl_bump_total_time [of new_tally G]
  by (simp add: new_tally_def float_total_def)

lemma map_of_add_avg:
  "map_of (map (\<lambda>(k, st). (k, add_avg_time st)) d) k = map_option add_avg_time (map_of d k)"
  by (induction d) auto

lemma filter_not_success:
  "\<forall>r\<in>set G. rec_result r = ''Success'' \<or> rec_result r = ''Fail'' \<Longrightarrow>
   filter (\<lambda>r. rec_result r \<noteq> ''Success'') G = filter (\<lambda>r. rec_result r = ''Fail'') G"
  by (rule filter_cong) auto

lemma stats_by_key:
  assumes "r0 \<in> set rs"
    and "\<forall>r\<in>set rs. rec_result r = ''Success'' \<or> rec_result r = ''Fail''"
  shows "map_of (map (\<lambda>(k, st). (k, add_avg_time st)) (tally_loop key rs [])) (key r0) =
         Some (summary_of_group (filter (\<lambda>r. key r = key r0) rs))"
proof -
  let ?G = "filter (\<lambda>r. key r = key r0) rs"
  from assms(1) have ne: "?G \<noteq> []"
    by (auto simp: filter_empty_conv)
  from assms(2) have "\<forall>r\<in>set ?G. rec_result r = ''Success'' \<or> rec_result r = ''Fail''"
    by simp
  then have nf: "filter (\<lambda>r. rec_result r \<noteq> ''Success'') ?G = filter (\<lambda>r. rec_result r = ''Fail'') ?G"
    by (rule filter_not_success)
  have "map_of (tally_loop key rs []) (key r0) = Some (foldl (\<lambda>st r. bump r st) new_tally ?G)"
    using ne by (simp add: map_of_tally_loop entry_or_new_def)
  then have "map_of (map (\<lambda>(k, st). (k, add_avg_time st)) (tally_loop key rs [])) (key r0) =
      Some (add_avg_time (foldl (\<lambda>st r. bump r st) new_tally ?G))"
    by (simp only: map_of_add_avg option.map)
  moreover have "add_avg_time (foldl (\<lambda>st r. bump r st) new_tally ?G) = summary_of_group ?G"
    using ne nf by (simp add: foldl_bump_new add_avg_time_def summary_of_group_def)
  ultimately show ?thesis by simp
qed

lemma keys_add_avg: "map fst (map (\<lambda>(k, st). (k, add_avg_time st)) d) = map fst d"
  by (induction d) auto

lemma digit_inj: "a < 10 \<Longrightarrow> b < 10 \<Longrightarrow> digit a = digit b \<Longrightarrow> a = b"
proof -
  assume a: "a < 10" and b: "b < 10" and e: "digit a = digit b"
  have d: "distinct ''0123456789''" by simp
  have "a < length ''0123456789''" and "b < length ''0123456789''"
    using a b by simp_all
  with d e show "a = b"
    unfolding digit_def by (simp only: nth_eq_iff_index_eq)
qed

lemma split_decimal: "(n::nat) = 10 * (n div 10) + n mod 10"
  by simp

lemma pad2_inj: "a < 100 \<Longrightarrow> b < 100 \<Longrightarrow> pad2 a = pad2 b \<Longrightarrow> a = b"
proof -
  assume a: "a < 100" and b: "b < 100" and e: "pad2 a = pad2 b"
  from e have "digit (a div 10 mod 10) = digit (b div 10 mod 10)" and "digit (a mod 10) = digit (b mod 10)"
    by (simp_all add: pad2_def)
  then have 1: "a div 10 mod 10 = b div 10 mod 10" and 0: "a mod 10 = b mod 10"
    by (simp_all add: digit_inj)
  from a b have "a div 10 < 10" and "b div 10 < 10" by simp_all
  with 1 have "a div 10 = b div 10" by simp
  with 0 show "a = b"
    using split_decimal [of a] split_decimal [of b] by simp
qed

lemma pad4_inj: "a < 10000 \<Longrightarrow> b < 10000 \<Longrightarrow> pad4 a = pad4 b \<Longrightarrow> a = b"
proof -
  assume a: "a < 10000" and b: "b < 10000" and e: "pad4 a = pad4 b"
  from e have "digit (a div 1000 mod 10) = digit (b div 1000 mod 10)"
    and "digit (a div 100 mod 10) = digit (b div 100 mod 10)"
    and "digit (a div 10 mod 10) = digit (b div 10 mod 10)"
    and "digit (a mod 10) = digit (b mod 10)"
    by (simp_all add: pad4_def)
  then have 3: "a div 1000 mod 10 = b div 1000 mod 10" and 2: "a div 100 mod 10 = b div 100 mod 10"
    and 1: "a div 10 mod 10 = b div 10 mod 10" and 0: "a mod 10 = b mod 10"
    by (simp_all add: digit_inj)
  from a b have "a div 1000 < 10" and "b div 1000 < 10" by simp_all
  with 3 have "a div 1000 = b div 1000" by simp
  then have "a div 100 div 10 = b div 100 div 10"
    by (simp add: div_mult2_eq [symmetric])
  with 2 have "a div 100 = b div 100"
    using split_decimal [of "a div 100"] split_decimal [of "b div 100"] by simp
  then have "a div 10 div 10 = b div 10 div 10"
    by (simp add: div_mult2_eq [symmetric])
  with 1 have "a div 10 = b div 10"
    using split_decimal [of "a div 10"] split_decimal [of "b div 10"] by simp
  with 0 show "a = b"
    using split_decimal [of a] split_decimal [of b] by simp
qed

lemma isoformat_inj:
  assumes "valid_date d" and "valid_date d'" and "isoformat d = isoformat d'"
  shows "d = d'"
proof -
  from assms(3) have "pad4 (year d) = pad4 (year d')" and "pad2 (month d) = pad2 (month d')"
    and "pad2 (day d) = pad2 (day d')"
    by (simp_all add: isoformat_def pad4_def pad2_def)
  moreover from assms(1,2) have "year d < 10000" "year d' < 10000" "month d < 100" "month d' < 100"
    "day d < 100" "day d' < 100"
    by (simp_all add: valid_date_def)
  ultimately have "year d = year d'" and "month d = month d'" and "day d = day d'"
    by (blast intro: pad4_inj pad2_inj)+
  then show ?thesis by simp
qed

lemma daily_stats_tally:
  "compute_daily_stats rs = map (\<lambda>(k, st). (k, add_avg_time st)) (tally_loop (\<lambda>r. isoformat (rec_date r)) rs [])"
  by (simp add: compute_daily_stats_def daily_loop_tally)

lemma monthly_stats_tally:
  "compute_monthly_stats rs = map (\<lambda>(k, st). (k, add_avg_time st)) (tally_loop rec_month_key rs [])"
  by (simp add: compute_monthly_stats_def monthly_loop_tally)

lemma same_day_filter:
  assumes "\<forall>r\<in>set rs. valid_date (rec_date r)" and "r0 \<in> set rs"
  shows "filter (\<lambda>r. isoformat (rec_date r) = isoformat (rec_date r0)) rs =
         filter (\<lambda>r. rec_date r = rec_date r0) rs"
proof (rule filter_cong [OF refl])
  fix r assume "r \<in> set rs"
  with assms have "valid_date (rec_date r)" and "valid_date (rec_date r0)" by auto
  then show "(isoformat (rec_date r) = isoformat (rec_date r0)) = (rec_date r = rec_date r0)"
    by (auto dest: isoformat_inj)
qed

lemma iso_example: "isoformat \<lparr>year = 2025, month = 2, day = 3\<rparr> = ''2025-02-03''"
  by (simp add: isoformat_def pad4_def pad2_def digit_def)

text \<open>
  Claim C8 asks for \<open>avg_time\<close> = total of the times / rounds. The code computes both
  in floating point, so this holds only up to rounding: for the two rounds of
  \<open>rounding_log\<close> the total \<open>2\<^sup>5\<^sup>3 + 1\<close> is rounded to \<open>2\<^sup>5\<^sup>3\<close>, and \<open>avg_time\<close> is
  \<open>2\<^sup>5\<^sup>2\<close>, not \<open>(2\<^sup>5\<^sup>3 + 1) / 2\<close>. The counts are as the claim says.
\<close>

theorem average_is_rounded:
  "map rec_time rounding_log = [Finite 9007199254740992, Finite 1] \<and>
   map_of (compute_daily_stats rounding_log) ''2025-02-03'' =
     Some \<lparr>rounds = 2, success = 2, fail = 0, total_time = Finite 9007199254740992,
           avg_time = Finite 4503599627370496\<rparr> \<and>
   map_of (compute_monthly_stats rounding_log) ''2025-02'' =
     Some \<lparr>rounds = 2, success = 2, fail = 0, total_time = Finite 9007199254740992,
           avg_time = Finite 4503599627370496\<rparr> \<and>
   Finite ((9007199254740992 + 1) / 2) \<noteq> Finite 4503599627370496"
  by (simp add: compute_daily_stats_def compute_monthly_stats_def rounding_log_def
      example_record_def iso_example Let_def new_tally_def add_avg_time_def fl_numeral
      float_of_numeral float_of_2_53 float_of_2_53_plus_1)

text \<open>
  When no partial sum is rounded and none overflows, the floating-point total of a list of
  finite times is their sum.
\<close>

lemma float_total_exact:
  assumes "\<forall>n\<le>length ts. float_of (sum_list (take n ts)) = Finite (sum_list (take n ts))"
  shows "float_total (map Finite ts) = Finite (sum_list ts)"
  using assms
proof (induction ts rule: rev_induct)
  case Nil
  then show ?case by (simp add: float_total_def)
next
  case (snoc t ts)
  have "\<forall>n\<le>length ts. float_of (sum_list (take n ts)) = Finite (sum_list (take n ts))"
  proof (intro allI impI)
    fix n assume n: "n \<le> length ts"
    then have "n \<le> length (ts @ [t])"
      by simp
    with snoc.prems have "float_of (sum_list (take n (ts @ [t]))) = Finite (sum_list (take n (ts @ [t])))"
      by blast
    with n show "float_of (sum_list (take n ts)) = Finite (sum_list (take n ts))"
      by simp
  qed
  from snoc.IH [OF this] have "float_total (map Finite ts) = Finite (sum_list ts)" .
  moreover from snoc.prems have "float_of (sum_list (ts @ [t])) = Finite (sum_list (ts @ [t]))"
    by (metis order_refl take_all)
  ultimately show ?case
    by (simp add: float_total_def)
qed

text \<open>
  Claim C8, with the arithmetic the code performs. For every performance log (records with
  valid dates and outcome \<^verbatim>\<open>"Success"\<close> or \<^verbatim>\<open>"Fail"\<close>), the daily summary maps the
  ISO string of each date occurring in the log to the number of that date's records, the
  numbers of Success and of Fail records among them, the floating-point total of their
  times, added in the order of the log, and as \<open>avg_time\<close> the floating-point quotient of
  that total by the number of rounds; the monthly summary does the same per year-month key;
  and the keys of either summary are exactly the keys occurring in the log.
\<close>

theorem summaries_group_records:
  assumes dates: "\<forall>r\<in>set rs. valid_date (rec_date r)"
    and outcomes: "\<forall>r\<in>set rs. rec_result r = ''Success'' \<or> rec_result r = ''Fail''"
    and r0: "r0 \<in> set rs"
  shows "map_of (compute_daily_stats rs) (isoformat (rec_date r0)) =
           Some (summary_of_group (filter (\<lambda>r. rec_date r = rec_date r0) rs)) \<and>
         map_of (compute_monthly_stats rs) (rec_month_key r0) =
           Some (summary_of_group (filter (\<lambda>r. rec_month_key r = rec_month_key r0) rs)) \<and>
         fst ` set (compute_daily_stats rs) = (\<lambda>r. isoformat (rec_date r)) ` set rs \<and>
         fst ` set (compute_monthly_stats rs) = rec_month_key ` set rs"
proof -
  have "map_of (compute_daily_stats rs) (isoformat (rec_date r0)) =
      Some (summary_of_group (filter (\<lambda>r. isoformat (rec_date r) = isoformat (rec_date r0)) rs))"
    unfolding daily_stats_tally using r0 outcomes by (rule stats_by_key)
  then have daily: "map_of (compute_daily_stats rs) (isoformat (rec_date r0)) =
      Some (summary_of_group (filter (\<lambda>r. rec_date r = rec_date r0) rs))"
    by (simp only: same_day_filter [OF dates r0])
  have monthly: "map_of (compute_monthly_stats rs) (rec_month_key r0) =
      Some (summary_of_group (filter (\<lambda>r. rec_month_key r = rec_month_key r0) rs))"
    unfolding monthly_stats_tally using r0 outcomes by (rule stats_by_key)
  have "set (map fst (compute_daily_stats rs)) = (\<lambda>r. isoformat (rec_date r)) ` set rs"
    unfolding daily_stats_tally keys_add_avg using keys_tally_loop [of "\<lambda>r. isoformat (rec_date r)" rs "[]"]
    by simp
  then have dkeys: "fst ` set (compute_daily_stats rs) = (\<lambda>r. isoformat (rec_date r)) ` set rs"
    by simp
  have "set (map fst (compute_monthly_stats rs)) = rec_month_key ` set rs"
    unfolding monthly_stats_tally keys_add_avg using keys_tally_loop [of rec_month_key rs "[]"]
    by simp
  then have mkeys: "fst ` set (compute_monthly_stats rs) = rec_month_key ` set rs"
    by simp
  from daily monthly dkeys mkeys show ?thesis by simp
qed

text \<open>
  The specification's example: three records of one date with times 1, 2 and 3, two
  Success and one Fail, give 3 rounds, 2 successes, 1 fail and the average time 2.
\<close>

theorem summaries_group_records_witness:
  "map_of (compute_daily_stats example_log) ''2025-02-03'' =
     Some \<lparr>rounds = 3, success = 2, fail = 1, total_time = Finite 6, avg_time = Finite 2\<rparr> \<and>
   map_of (compute_monthly_stats example_log) ''2025-02'' =
     Some \<lparr>rounds = 3, success = 2, fail = 1, total_time = Finite 6, avg_time = Finite 2\<rparr>"
proof -
  have dates: "\<forall>r\<in>set example_log. valid_date (rec_date r)"
    by (simp add: example_log_def example_record_def valid_date_def)
  have outcomes: "\<forall>r\<in>set example_log. rec_result r = ''Success'' \<or> rec_result r = ''Fail''"
    by (simp add: example_log_def example_record_def)
  have r0: "example_record ''Fail'' 3 \<in> set example_log"
    by (simp add: example_log_def)
  show ?thesis
    using summaries_group_records [OF dates outcomes r0]
    by (simp add: example_log_def example_record_def iso_example summary_of_group_def
        float_total_def fl_numeral fl_1 float_of_numeral float_of_1)
qed

lemma rounds_bump: "rounds (bump record st) = rounds st + 1"
  by (simp add: bump_def)

lemma balance_bump: "success st + fail st = rounds st \<Longrightarrow>
    success (bump record st) + fail (bump record st) = rounds (bump record st)"
  by (simp add: bump_def)

lemma total_rounds_map_entry:
  "k \<in> fst ` set d \<Longrightarrow> total_rounds (AList.map_entry k (bump record) d) = total_rounds d + 1"
  by (induction d) (auto simp: total_rounds_def rounds_bump)

lemma total_rounds_update_new:
  "k \<notin> fst ` set d \<Longrightarrow> total_rounds (AList.update k new_tally d) = total_rounds d"
  by (induction d) (auto simp: total_rounds_def new_tally_def)

lemma total_rounds_tally_step: "total_rounds (tally_step k record d) = total_rounds d + 1"
  by (simp add: tally_step_def total_rounds_map_entry total_rounds_update_new AList.dom_update)

lemma total_rounds_tally_loop: "total_rounds (tally_loop key rs d) = total_rounds d + length rs"
  by (induction rs arbitrary: d) (simp_all add: total_rounds_tally_step)

lemma balanced_map_entry: "balanced d \<Longrightarrow> balanced (AList.map_entry k (bump record) d)"
  by (induction d) (auto simp: balanced_def balance_bump)

lemma balanced_update_new: "balanced d \<Longrightarrow> balanced (AList.update k new_tally d)"
  by (induction d) (auto simp: balanced_def new_tally_def)

lemma balanced_tally_step: "balanced d \<Longrightarrow> balanced (tally_step k record d)"
  by (simp add: tally_step_def balanced_map_entry balanced_update_new)

lemma balanced_tally_loop: "balanced d \<Longrightarrow> balanced (tally_loop key rs d)"
  by (induction rs arbitrary: d) (simp_all add: balanced_tally_step)

lemma add_avg_rounds:
  "sum_list (map (\<lambda>(k, st). rounds st) (map (\<lambda>(k, st). (k, add_avg_time st)) d)) = total_rounds d"
  by (induction d) (auto simp: total_rounds_def add_avg_time_def)

lemma add_avg_balanced:
  "balanced d \<Longrightarrow> \<forall>(k, st)\<in>set (map (\<lambda>(k, st). (k, add_avg_time st)) d). success st + fail st = rounds st"
  by (induction d) (auto simp: balanced_def add_avg_time_def)

lemma stats_partition:
  "(\<forall>(k, st)\<in>set (map (\<lambda>(k, st). (k, add_avg_time st)) (tally_loop key rs [])). success st + fail st = rounds st) \<and>
   sum_list (map (\<lambda>(k, st). rounds st) (map (\<lambda>(k, st). (k, add_avg_time st)) (tally_loop key rs []))) = length rs \<and>
   distinct (map fst (map (\<lambda>(k, st). (k, add_avg_time st)) (tally_loop key rs [])))"
proof -
  let ?d = "tally_loop key rs []"
  have "balanced ?d"
    by (rule balanced_tally_loop) (simp add: balanced_def)
  then have 1: "\<forall>(k, st)\<in>set (map (\<lambda>(k, st). (k, add_avg_time st)) ?d). success st + fail st = rounds st"
    by (rule add_avg_balanced)
  have "total_rounds [] = 0"
    by (simp add: total_rounds_def)
  then have "total_rounds ?d = length rs"
    by (simp add: total_rounds_tally_loop)
  then have 2: "sum_list (map (\<lambda>(k, st). rounds st) (map (\<lambda>(k, st). (k, add_avg_time st)) ?d)) = length rs"
    by (simp only: add_avg_rounds)
  have "distinct (map fst ?d)"
    by (rule distinct_tally_loop) simp
  then have 3: "distinct (map fst (map (\<lambda>(k, st). (k, add_avg_time st)) ?d))"
    by (simp only: keys_add_avg)
  from 1 2 3 show ?thesis by blast
qed

text \<open>
  Claim C10. In the daily and in the monthly summary, every key's success count plus fail
  count equals its round count, the round counts of all keys add up to the length of the
  log, and no key occurs twice: every record is counted in exactly one group.
\<close>

theorem every_record_counted_once:
  "(\<forall>(k, st)\<in>set (compute_daily_stats rs). success st + fail st = rounds st) \<and>
   sum_list (map (\<lambda>(k, st). rounds st) (compute_daily_stats rs)) = length rs \<and>
   distinct (map fst (compute_daily_stats rs)) \<and>
   (\<forall>(k, st)\<in>set (compute_monthly_stats rs). success st + fail st = rounds st) \<and>
   sum_list (map (\<lambda>(k, st). rounds st) (compute_monthly_stats rs)) = length rs \<and>
   distinct (map fst (compute_monthly_stats rs))"
  unfolding daily_stats_tally monthly_stats_tally
  using stats_partition [of "\<lambda>r. isoformat (rec_date r)" rs] stats_partition [of rec_month_key rs]
  by blast

lemma iso_example2: "isoformat \<lparr>year = 2025, month = 3, day = 2\<rparr> = ''2025-03-02''"
  by (simp add: isoformat_def pad4_def pad2_def digit_def)

lemma two_day_daily:
  "compute_daily_stats two_day_log =
     [(''2025-02-03'', \<lparr>rounds = 2, success = 1, fail = 1, total_time = Finite 3, avg_time = Finite (3 / 2)\<rparr>),
      (''2025-03-02'', \<lparr>rounds = 1, success = 0, fail = 1, total_time = Finite 4, avg_time = Finite 4\<rparr>)]"
  by (simp add: compute_daily_stats_def two_day_log_def example_record_def iso_example iso_example2
      Let_def new_tally_def add_avg_time_def fl_numeral fl_1 float_of_numeral float_of_1 float_of_3_2)

lemma two_day_monthly:
  "compute_monthly_stats two_day_log =
     [(''2025-02'', \<lparr>rounds = 2, success = 1, fail = 1, total_time = Finite 3, avg_time = Finite (3 / 2)\<rparr>),
      (''2025-03'', \<lparr>rounds = 1, success = 0, fail = 1, total_time = Finite 4, avg_time = Finite 4\<rparr>)]"
  by (simp add: compute_monthly_stats_def two_day_log_def example_record_def
      Let_def new_tally_def add_avg_time_def fl_numeral fl_1 float_of_numeral float_of_1 float_of_3_2)

theorem every_record_counted_once_witness:
  "map (\<lambda>(k, st). (k, rounds st, success st + fail st)) (compute_daily_stats two_day_log) =
     [(''2025-02-03'', 2, 2), (''2025-03-02'', 1, 1)] \<and>
   sum_list (map (\<lambda>(k, st). rounds st) (compute_daily_stats two_day_log)) = length two_day_log \<and>
   map (\<lambda>(k, st). (k, rounds st, success st + fail st)) (compute_monthly_stats two_day_log) =
     [(''2025-02'', 2, 2), (''2025-03'', 1, 1)] \<and>
   sum_list (map (\<lambda>(k, st). rounds st) (compute_monthly_stats two_day_log)) = length two_day_log"
  using every_record_counted_once [of two_day_log]
  by (simp add: two_day_daily two_day_monthly)

section \<open>The game: properties\<close>

lemma in_board_shape: "map length bs' = map length bs \<Longrightarrow> in_board bs' p = in_board bs p"
proof -
  assume e: "map length bs' = map length bs"
  then have l: "length bs' = length bs"
    by (rule map_eq_imp_length_eq)
  have "fst p < length bs \<Longrightarrow> length (bs' ! fst p) = length (bs ! fst p)"
    using e l by (metis nth_map)
  with l show ?thesis
    by (auto simp: in_board_def)
qed

lemma configure_shape: "configure f bs p = Inr bs' \<Longrightarrow> map length bs' = map length bs"
  by (auto simp: configure_def map_update list_update_same_conv split: if_splits)

lemma configure_ok: "in_board bs p \<Longrightarrow>
    configure f bs p = Inr (bs[fst p := (bs ! fst p)[snd p := f (bs ! fst p ! snd p)]])"
  by (simp add: configure_def in_board_def)

lemma configure_each_ok:
  "\<forall>p\<in>set ps. in_board bs p \<Longrightarrow> \<exists>bs'. configure_each f bs ps = Inr bs' \<and> map length bs' = map length bs"
proof (induction ps arbitrary: bs)
  case Nil
  then show ?case by simp
next
  case (Cons p ps)
  let ?bs1 = "bs[fst p := (bs ! fst p)[snd p := f (bs ! fst p ! snd p)]]"
  from Cons.prems have c: "configure f bs p = Inr ?bs1"
    by (simp add: configure_ok)
  then have sh: "map length ?bs1 = map length bs"
    by (rule configure_shape)
  from Cons.prems have "\<forall>q\<in>set ps. in_board ?bs1 q"
    by (simp only: in_board_shape [OF sh]) simp
  from Cons.IH [OF this] sh c show ?case
    by auto
qed

lemma configure_cell:
  "configure f bs p = Inr bs' \<Longrightarrow> in_board bs q \<Longrightarrow>
   bs' ! fst q ! snd q = (if q = p then f (bs ! fst q ! snd q) else bs ! fst q ! snd q)"
  by (cases p; cases q) (auto simp: configure_def in_board_def nth_list_update split: if_splits)

lemma configure_each_establishes:
  assumes "\<forall>b. P (f b)"
  shows "configure_each f bs ps = Inr bs' \<Longrightarrow> in_board bs q \<Longrightarrow>
         q \<in> set ps \<or> P (bs ! fst q ! snd q) \<Longrightarrow> P (bs' ! fst q ! snd q)"
proof (induction ps arbitrary: bs)
  case Nil
  then show ?case by simp
next
  case (Cons p ps)
  from Cons.prems(1) obtain bs1 where c: "configure f bs p = Inr bs1"
    and r: "configure_each f bs1 ps = Inr bs'"
    by (auto split: sum.splits)
  from c have sh: "map length bs1 = map length bs"
    by (rule configure_shape)
  from Cons.prems(2) have q1: "in_board bs1 q"
    by (simp only: in_board_shape [OF sh])
  from configure_cell [OF c Cons.prems(2)] Cons.prems(3) assms
  have "q \<in> set ps \<or> P (bs1 ! fst q ! snd q)"
    by auto
  from Cons.IH [OF r q1 this] show ?case .
qed

lemma configure_each_keeps:
  assumes "\<forall>b. g (f b) = g b"
  shows "configure_each f bs ps = Inr bs' \<Longrightarrow> in_board bs q \<Longrightarrow>
         g (bs' ! fst q ! snd q) = g (bs ! fst q ! snd q)"
proof (induction ps arbitrary: bs)
  case Nil
  then show ?case by simp
next
  case (Cons p ps)
  from Cons.prems(1) obtain bs1 where c: "configure f bs p = Inr bs1"
    and r: "configure_each f bs1 ps = Inr bs'"
    by (auto split: sum.splits)
  from c have sh: "map length bs1 = map length bs"
    by (rule configure_shape)
  from Cons.prems(2) have q1: "in_board bs1 q"
    by (simp only: in_board_shape [OF sh])
  from configure_cell [OF c Cons.prems(2)] assms
  have "g (bs1 ! fst q ! snd q) = g (bs ! fst q ! snd q)"
    by auto
  with Cons.IH [OF r q1] show ?case by simp
qed

lemma set_all_positions: "set (all_positions n) = {p. fst p < nat n \<and> snd p < nat n}"
  by (auto simp: all_positions_def py_range_def)

lemma length_all_positions: "length (all_positions n) = nat n * nat n"
  by (simp add: all_positions_def py_range_def length_concat comp_def sum_list_triv)

lemma distinct_all_positions: "distinct (all_positions n)"
  unfolding all_positions_def py_range_def
  by (rule distinct_concat) (auto simp: distinct_map inj_on_def)

lemma board_ok_in_board:
  "board_ok s \<Longrightarrow> fst p < nat (grid_size s) \<Longrightarrow> snd p < nat (grid_size s) \<Longrightarrow> in_board (buttons s) p"
proof -
  assume b: "board_ok s" and r: "fst p < nat (grid_size s)" and c: "snd p < nat (grid_size s)"
  from b have l: "length (buttons s) = nat (grid_size s)"
    unfolding board_ok_def by (metis length_map length_replicate)
  from b r l have "map length (buttons s) ! fst p = nat (grid_size s)"
    unfolding board_ok_def by simp
  with r l have "length (buttons s ! fst p) = nat (grid_size s)"
    by simp
  with r c l show ?thesis
    by (simp add: in_board_def)
qed

lemma length_sample_from: "length (sample_from rng i pool k) = k"
  by (induction k arbitrary: i pool) (simp_all add: Let_def)

lemma remove_nth_set: "j < length pool \<Longrightarrow> set (take j pool @ drop (Suc j) pool) \<subseteq> set pool"
  by (auto dest: in_set_takeD in_set_dropD)

lemma remove_nth_distinct:
  "j < length pool \<Longrightarrow> distinct pool \<Longrightarrow>
   distinct (take j pool @ drop (Suc j) pool) \<and> pool ! j \<notin> set (take j pool @ drop (Suc j) pool)"
proof -
  assume j: "j < length pool" and d: "distinct pool"
  from j have "pool = take j pool @ pool ! j # drop (Suc j) pool"
    by (rule id_take_nth_drop)
  with d have "distinct (take j pool @ pool ! j # drop (Suc j) pool)"
    by simp
  then show ?thesis
    by auto
qed

lemma sample_from_subset:
  "k \<le> length pool \<Longrightarrow> set (sample_from rng i pool k) \<subseteq> set pool"
proof (induction k arbitrary: i pool)
  case 0
  then show ?case by simp
next
  case (Suc k)
  let ?j = "rng i mod length pool"
  let ?rest = "take ?j pool @ drop (Suc ?j) pool"
  from Suc.prems have "0 < length pool" by (cases pool) simp_all
  then have j: "?j < length pool" by (rule mod_less_divisor)
  with Suc.prems have "k \<le> length ?rest" by simp
  from Suc.IH [OF this] have "set (sample_from rng (Suc i) ?rest k) \<subseteq> set ?rest" .
  with remove_nth_set [OF j] j show ?case
    by (auto simp: Let_def)
qed

lemma sample_from_distinct:
  "k \<le> length pool \<Longrightarrow> distinct pool \<Longrightarrow> distinct (sample_from rng i pool k)"
proof (induction k arbitrary: i pool)
  case 0
  then show ?case by simp
next
  case (Suc k)
  let ?j = "rng i mod length pool"
  let ?rest = "take ?j pool @ drop (Suc ?j) pool"
  from Suc.prems have "0 < length pool" by (cases pool) simp_all
  then have j: "?j < length pool" by (rule mod_less_divisor)
  with Suc.prems have k: "k \<le> length ?rest" by simp
  from remove_nth_distinct [OF j Suc.prems(2)]
  have d: "distinct ?rest" and n: "pool ! ?j \<notin> set ?rest" by simp_all
  from sample_from_subset [OF k] n have "pool ! ?j \<notin> set (sample_from rng (Suc i) ?rest k)"
    by blast
  with Suc.IH [OF k d] show ?case
    by (simp add: Let_def)
qed

lemma board_ok_all_positions:
  "board_ok s \<Longrightarrow> \<forall>p\<in>set (all_positions (grid_size s)). in_board (buttons s) p"
  by (simp add: set_all_positions board_ok_in_board)

lemma board_ok_shape:
  "board_ok s \<Longrightarrow> grid_size s' = grid_size s \<Longrightarrow> map length (buttons s') = map length (buttons s) \<Longrightarrow> board_ok s'"
  by (simp add: board_ok_def)

lemma end_round_effect:
  assumes b: "board_ok s" and st: "round_start_time s = Some start"
  shows "\<exists>s'. end_round t now s won = Inr s' \<and>
      current_streak s' = (if won then current_streak s + 1 else 0) \<and>
      longest_streak s' = (if won then max (longest_streak s) (current_streak s + 1) else longest_streak s) \<and>
      performance_data s' = performance_data s @
        [\<lparr>rec_round = length (performance_data s) + 1, rec_level = level s,
          rec_result = (if won then ''Success'' else ''Fail''), rec_time = float_of (t - start),
          rec_replays = replay_count s, rec_date = date_of now, rec_month_key = strftime_Ym now,
          rec_streak_after_round = (if won then current_streak s + 1 else 0)\<rparr>] \<and>
      level s' = (if won then level s + 1 else 1) \<and>
      next_button s' = normal \<and> show_pattern_button s' = disabled \<and>
      grid_size s' = grid_size s \<and> initial_sequence_length s' = initial_sequence_length s \<and>
      correct_sequence s' = correct_sequence s \<and> sequence_index s' = sequence_index s \<and>
      showing_sequence s' = showing_sequence s \<and> round_start_time s' = round_start_time s \<and>
      replay_count s' = replay_count s \<and> timers s' = timers s \<and>
      map length (buttons s') = map length (buttons s) \<and>
      (\<forall>q. in_board (buttons s) q \<longrightarrow>
         bg (buttons s' ! fst q ! snd q) = bg (buttons s ! fst q ! snd q)) \<and>
      (\<forall>q\<in>set (all_positions (grid_size s)). state (buttons s' ! fst q ! snd q) = disabled)"
proof -
  let ?f = "\<lambda>b::button. b\<lparr>state := disabled\<rparr>"
  from configure_each_ok [OF board_ok_all_positions [OF b], of ?f]
  obtain bs where c: "configure_each ?f (buttons s) (all_positions (grid_size s)) = Inr bs"
    and sh: "map length bs = map length (buttons s)"
    by blast
  have keep: "\<forall>q. in_board (buttons s) q \<longrightarrow> bg (bs ! fst q ! snd q) = bg (buttons s ! fst q ! snd q)"
    using configure_each_keeps [of bg ?f, OF _ c] by simp
  have dis: "\<forall>q\<in>set (all_positions (grid_size s)). state (bs ! fst q ! snd q) = disabled"
    using configure_each_establishes [of "\<lambda>b. state b = disabled" ?f, OF _ c]
      board_ok_all_positions [OF b] by simp
  show ?thesis
    using c st sh keep dis by (simp add: end_round_def Let_def max_def)
qed

lemma end_round_fields:
  "end_round t now s won = Inr s' \<Longrightarrow>
     current_streak s' = (if won then current_streak s + 1 else 0) \<and>
     longest_streak s' = (if won then max (longest_streak s) (current_streak s + 1) else longest_streak s) \<and>
     level s' = (if won then level s + 1 else 1) \<and>
     (\<exists>r. performance_data s' = performance_data s @ [r] \<and>
          rec_round r = length (performance_data s) + 1 \<and> rec_level r = level s \<and>
          rec_result r = (if won then ''Success'' else ''Fail''))"
  by (auto simp: end_round_def Let_def max_def split: sum.splits option.splits if_splits)

lemma finish_showing_sequence_score: "finish_showing_sequence s = Inr s' \<Longrightarrow> score s' = score s"
  by (auto simp: finish_showing_sequence_def score_def split: sum.splits)

lemma show_sequence_step_score: "show_sequence_step s i = Inr s' \<Longrightarrow> score s' = score s"
  by (auto simp: show_sequence_step_def score_def dest: finish_showing_sequence_score split: sum.splits if_splits)

lemma hide_sequence_step_score: "hide_sequence_step s i = Inr s' \<Longrightarrow> score s' = score s"
  by (auto simp: hide_sequence_step_def score_def split: sum.splits if_splits)

lemma start_new_round_score: "start_new_round rng t s = Inr s' \<Longrightarrow> score s' = score s"
  by (auto simp: start_new_round_def Let_def score_def dest!: show_sequence_step_score split: sum.splits)

lemma show_pattern_again_score: "show_pattern_again s = Inr s' \<Longrightarrow> score s' = score s"
  by (auto simp: show_pattern_again_def Let_def score_def dest!: show_sequence_step_score split: sum.splits)

lemma fire_timer_score: "fire_timer s k = Inr s' \<Longrightarrow> score s' = score s"
  by (auto simp: fire_timer_def Let_def score_def
      dest!: show_sequence_step_score hide_sequence_step_score split: callback.splits if_splits)

lemma on_block_click_score:
  "on_block_click t now s row col = Inr s' \<Longrightarrow>
   score s' = score s \<or> (\<exists>s1 won. score s1 = score s \<and> end_round t now s1 won = Inr s')"
  unfolding on_block_click_def Let_def
  by (auto simp: score_def split: sum.splits if_splits)

lemma handle_event_score:
  "handle_event s e = Inr s' \<Longrightarrow>
   score s' = score s \<or> (\<exists>t now s1 won. score s1 = score s \<and> end_round t now s1 won = Inr s')"
proof (cases e)
  case (Click_block t now row col)
  assume "handle_event s e = Inr s'"
  with Click_block have "click_button t now s row col = Inr s'" by simp
  then have "s' = s \<or> on_block_click t now s row col = Inr s'"
    by (auto simp: click_button_def split: if_splits)
  then show ?thesis
    using on_block_click_score by blast
next
  case (Click_next_round rng t)
  assume "handle_event s e = Inr s'"
  with Click_next_round show ?thesis
    by (auto dest: start_new_round_score split: if_splits)
next
  case Click_show_pattern
  assume "handle_event s e = Inr s'"
  with Click_show_pattern show ?thesis
    by (auto dest: show_pattern_again_score split: if_splits)
next
  case (Timer k)
  assume "handle_event s e = Inr s'"
  with Timer show ?thesis
    by (auto dest: fire_timer_score)
qed

lemma run_invariant:
  assumes frame: "\<And>s s'. score s' = score s \<Longrightarrow> P s \<Longrightarrow> P s'"
    and step: "\<And>t now s won s'. P s \<Longrightarrow> end_round t now s won = Inr s' \<Longrightarrow> P s'"
  shows "P s \<Longrightarrow> run s es = Inr s' \<Longrightarrow> P s'"
proof (induction es arbitrary: s)
  case Nil
  then show ?case by simp
next
  case (Cons e es)
  from Cons.prems(2) obtain s1 where h: "handle_event s e = Inr s1" and r: "run s1 es = Inr s'"
    by (auto split: sum.splits)
  from handle_event_score [OF h] Cons.prems(1) have "P s1"
    using frame step by blast
  from Cons.IH [OF this r] show ?case .
qed

lemma all_positions_2: "all_positions 2 = [(0, 0), (0, 1), (1, 0), (1, 1)]"
  by (simp add: all_positions_def py_range_def upt_conv_Cons)

lemma example_board_ok: "board_ok example_game"
  by (simp add: board_ok_def example_game_def numeral_2_eq_2)

lemma example_end_round:
  "end_round 12 example_now example_game True =
     Inr (example_game\<lparr>
       buttons := [[\<lparr>bg = green, state = disabled\<rparr>, \<lparr>bg = lightgray, state = disabled\<rparr>],
                   [\<lparr>bg = lightgray, state = disabled\<rparr>, \<lparr>bg = lightgray, state = disabled\<rparr>]],
       current_streak := 1, longest_streak := 1,
       performance_data := [\<lparr>rec_round = 1, rec_level = 1, rec_result = ''Success'', rec_time = Finite 2,
          rec_replays = 0, rec_date = \<lparr>year = 2025, month = 2, day = 3\<rparr>,
          rec_month_key = ''2025-02'', rec_streak_after_round = 1\<rparr>],
       message_label := Level_complete 1, level := 2, next_button := normal,
       show_pattern_button := disabled\<rparr>)"
  by (simp add: end_round_def example_game_def all_positions_2 configure_def Let_def
      example_now_def date_of_def float_of_numeral strftime_Ym_def pad4_def pad2_def digit_def)

lemma prefix_replicate_True: "prefix (replicate n True) bs \<longleftrightarrow> n \<le> length (takeWhile id bs)"
proof (induction bs arbitrary: n)
  case Nil
  then show ?case by simp
next
  case (Cons b bs)
  then show ?case by (cases n) (auto simp: prefix_Cons)
qed

lemma suffix_replicate_True: "suffix (replicate n True) bs \<longleftrightarrow> n \<le> trailing_run bs"
  using prefix_replicate_True [of n "rev bs"] by (simp add: suffix_to_prefix trailing_run_def)

lemma max_run_sublist: "sublist (replicate n True) bs \<longleftrightarrow> n \<le> max_run bs"
proof (induction bs)
  case Nil
  then show ?case by simp
next
  case (Cons b bs)
  have "sublist (replicate n True) (b # bs) \<longleftrightarrow>
      prefix (replicate n True) (b # bs) \<or> sublist (replicate n True) bs"
    by (rule sublist_Cons_right)
  with Cons show ?case
    by (simp only: prefix_replicate_True max_run.simps) auto
qed

lemma sublist_snoc: "sublist xs (ys @ [y]) \<longleftrightarrow> suffix xs (ys @ [y]) \<or> sublist xs ys"
proof -
  have "sublist xs (ys @ [y]) \<longleftrightarrow> sublist (rev xs) (y # rev ys)"
    using sublist_rev [of xs "ys @ [y]"] by simp
  also have "\<dots> \<longleftrightarrow> prefix (rev xs) (y # rev ys) \<or> sublist (rev xs) (rev ys)"
    by (rule sublist_Cons_right)
  also have "\<dots> \<longleftrightarrow> suffix xs (ys @ [y]) \<or> sublist xs ys"
    by (simp add: suffix_to_prefix)
  finally show ?thesis .
qed

lemma trailing_le_max_run: "trailing_run bs \<le> max_run bs"
proof -
  have "suffix (replicate (trailing_run bs) True) bs"
    by (simp only: suffix_replicate_True)
  then have "sublist (replicate (trailing_run bs) True) bs"
    by (rule suffix_imp_sublist)
  then show ?thesis
    by (simp only: max_run_sublist)
qed

lemma max_run_snoc: "max_run (bs @ [b]) = max (max_run bs) (trailing_run (bs @ [b]))"
proof (rule antisym)
  have "sublist (replicate (max_run (bs @ [b])) True) (bs @ [b])"
    by (simp only: max_run_sublist)
  then have "suffix (replicate (max_run (bs @ [b])) True) (bs @ [b]) \<or>
      sublist (replicate (max_run (bs @ [b])) True) bs"
    by (simp only: sublist_snoc)
  then have "max_run (bs @ [b]) \<le> trailing_run (bs @ [b]) \<or> max_run (bs @ [b]) \<le> max_run bs"
    by (simp only: suffix_replicate_True max_run_sublist)
  then show "max_run (bs @ [b]) \<le> max (max_run bs) (trailing_run (bs @ [b]))"
    by auto
next
  have "sublist (replicate (max_run bs) True) bs"
    by (simp only: max_run_sublist)
  then have "sublist (replicate (max_run bs) True) (bs @ [b])"
    by (simp only: sublist_snoc simp_thms)
  then have "max_run bs \<le> max_run (bs @ [b])"
    by (simp only: max_run_sublist)
  with trailing_le_max_run [of "bs @ [b]"]
  show "max (max_run bs) (trailing_run (bs @ [b])) \<le> max_run (bs @ [b])"
    by simp
qed

lemma trailing_run_snoc: "trailing_run (bs @ [b]) = (if b then trailing_run bs + 1 else 0)"
  by (simp add: trailing_run_def)

lemma end_round_outcomes: "end_round t now s won = Inr s' \<Longrightarrow> outcomes s' = outcomes s @ [won]"
  by (auto simp: outcomes_def dest!: end_round_fields)

lemma end_round_streaks_match:
  assumes m: "streaks_match_log s" and e: "end_round t now s won = Inr s'"
  shows "streaks_match_log s'"
proof -
  from e have o: "outcomes s' = outcomes s @ [won]"
    by (rule end_round_outcomes)
  from end_round_fields [OF e]
  have c: "current_streak s' = (if won then current_streak s + 1 else 0)"
    and l: "longest_streak s' = (if won then max (longest_streak s) (current_streak s + 1) else longest_streak s)"
    by simp_all
  from m have lm: "longest_streak s = max_run (outcomes s)" and cm: "current_streak s = trailing_run (outcomes s)"
    by (simp_all add: streaks_match_log_def)
  show ?thesis
    unfolding streaks_match_log_def o max_run_snoc trailing_run_snoc c l lm cm
    by simp
qed

lemma streaks_match_score: "score s' = score s \<Longrightarrow> streaks_match_log s \<Longrightarrow> streaks_match_log s'"
  by (simp add: score_def streaks_match_log_def outcomes_def)

lemma run_streaks_match: "streaks_match_log s \<Longrightarrow> run s es = Inr s' \<Longrightarrow> streaks_match_log s'"
  by (rule run_invariant [where P = streaks_match_log]) (auto intro: streaks_match_score end_round_streaks_match)

lemma run_longest_mono:
  assumes r: "run s es = Inr s'"
  shows "longest_streak s \<le> longest_streak s'"
proof -
  let ?P = "\<lambda>x. longest_streak s \<le> longest_streak x"
  have f: "\<And>a b. score b = score a \<Longrightarrow> ?P a \<Longrightarrow> ?P b"
    by (simp add: score_def)
  have st: "\<And>t now a won b. ?P a \<Longrightarrow> end_round t now a won = Inr b \<Longrightarrow> ?P b"
    by (auto dest!: end_round_fields split: if_splits)
  have "?P s"
    by simp
  from run_invariant [where P = ?P, OF f st this r] show ?thesis .
qed

lemma numbered_score: "score s' = score s \<Longrightarrow> numbered (performance_data s) \<Longrightarrow> numbered (performance_data s')"
  by (simp add: score_def)

lemma numbered_end_round:
  "numbered (performance_data s) \<Longrightarrow> end_round t now s won = Inr s' \<Longrightarrow> numbered (performance_data s')"
  by (auto simp: numbered_def dest!: end_round_fields)

lemma run_numbered: "numbered (performance_data s) \<Longrightarrow> run s es = Inr s' \<Longrightarrow> numbered (performance_data s')"
  by (rule run_invariant [where P = "\<lambda>x. numbered (performance_data x)"])
     (auto intro: numbered_score numbered_end_round)

lemma level_score: "score s' = score s \<Longrightarrow> 1 \<le> level s \<Longrightarrow> 1 \<le> level s'"
  by (simp add: score_def)

lemma level_end_round: "1 \<le> level s \<Longrightarrow> end_round t now s won = Inr s' \<Longrightarrow> 1 \<le> level s'"
  by (auto dest!: end_round_fields split: if_splits)

lemma run_level: "1 \<le> level s \<Longrightarrow> run s es = Inr s' \<Longrightarrow> 1 \<le> level s'"
  by (rule run_invariant [where P = "\<lambda>x. 1 \<le> level x"]) (auto intro: level_score level_end_round)

text \<open>
  Claim C5. For every level \<open>L \<ge> 1\<close>, \<^verbatim>\<open>end_round\<close> with success changes the level from
  \<open>L\<close> to exactly \<open>L + 1\<close> and with failure to exactly 1, and the level stays at least
  1 under every sequence of events.
\<close>

theorem level_transition:
  assumes "1 \<le> level s" and "board_ok s" and "round_start_time s \<noteq> None"
  shows "(\<exists>s'. end_round t now s True = Inr s' \<and> level s' = level s + 1) \<and>
         (\<exists>s'. end_round t now s False = Inr s' \<and> level s' = 1) \<and>
         (\<forall>es s'. run s es = Inr s' \<longrightarrow> 1 \<le> level s')"
proof -
  from assms(3) obtain start where st: "round_start_time s = Some start"
    by auto
  from end_round_effect [OF assms(2) st, of t now True]
  have 1: "\<exists>s'. end_round t now s True = Inr s' \<and> level s' = level s + 1"
    by auto
  from end_round_effect [OF assms(2) st, of t now False]
  have 2: "\<exists>s'. end_round t now s False = Inr s' \<and> level s' = 1"
    by auto
  from assms(1) have 3: "\<forall>es s'. run s es = Inr s' \<longrightarrow> 1 \<le> level s'"
    by (blast intro: run_level)
  from 1 2 3 show ?thesis by blast
qed

text \<open>
  Claim C6. \<^verbatim>\<open>end_round\<close> appends exactly one record, whose round number is the previous
  length of the log plus one and whose level is the level before the update; hence a log
  numbered 1..N remains numbered 1..N, in order and without gaps, under every sequence of
  events.
\<close>

theorem round_numbering:
  assumes "board_ok s" and "round_start_time s \<noteq> None"
  shows "(\<exists>s' r. end_round t now s won = Inr s' \<and> performance_data s' = performance_data s @ [r] \<and>
            rec_round r = length (performance_data s) + 1 \<and> rec_level r = level s) \<and>
         (numbered (performance_data s) \<longrightarrow>
            (\<forall>es s'. run s es = Inr s' \<longrightarrow>
               map rec_round (performance_data s') = [1..<length (performance_data s') + 1]))"
proof -
  from assms(2) obtain start where st: "round_start_time s = Some start"
    by auto
  from end_round_effect [OF assms(1) st, of t now won]
  obtain s' where e: "end_round t now s won = Inr s'"
    by blast
  from end_round_fields [OF e] e
  have 1: "\<exists>s' r. end_round t now s won = Inr s' \<and> performance_data s' = performance_data s @ [r] \<and>
            rec_round r = length (performance_data s) + 1 \<and> rec_level r = level s"
    by blast
  have 2: "numbered (performance_data s) \<longrightarrow>
            (\<forall>es s'. run s es = Inr s' \<longrightarrow>
               map rec_round (performance_data s') = [1..<length (performance_data s') + 1])"
    using run_numbered [of s] by (auto simp: numbered_def)
  from 1 2 show ?thesis by blast
qed

text \<open>
  Claim C4. When the streak counters agree with the log (as they do initially, with an empty
  log and both counters 0), then after \<^verbatim>\<open>end_round\<close>, and after every sequence of events,
  \<open>longest_streak\<close> is the maximum run length of consecutive successes among the outcomes
  processed so far, it has not decreased, and \<open>current_streak \<le> longest_streak\<close>. The
  last part says that \<open>max_run\<close> is that maximum: a run of \<open>n\<close> successes occurs in the
  outcomes exactly when \<open>n \<le> max_run\<close>.
\<close>

theorem longest_streak_is_max_run:
  assumes "board_ok s" and "round_start_time s \<noteq> None" and "streaks_match_log s"
  shows "(\<exists>s'. end_round t now s won = Inr s' \<and> outcomes s' = outcomes s @ [won] \<and>
            longest_streak s' = max_run (outcomes s') \<and>
            longest_streak s \<le> longest_streak s' \<and> current_streak s' \<le> longest_streak s') \<and>
         (\<forall>es s'. run s es = Inr s' \<longrightarrow>
            longest_streak s' = max_run (outcomes s') \<and>
            longest_streak s \<le> longest_streak s' \<and> current_streak s' \<le> longest_streak s') \<and>
         (\<forall>n. n \<le> max_run (outcomes s) \<longleftrightarrow> sublist (replicate n True) (outcomes s))"
proof -
  have le: "\<And>x. streaks_match_log x \<Longrightarrow> current_streak x \<le> longest_streak x"
    by (simp add: streaks_match_log_def trailing_le_max_run)
  from assms(2) obtain start where st: "round_start_time s = Some start"
    by auto
  from end_round_effect [OF assms(1) st, of t now won]
  obtain s' where e: "end_round t now s won = Inr s'"
    by blast
  have m: "streaks_match_log s'"
    using assms(3) e by (rule end_round_streaks_match)
  have "longest_streak s \<le> longest_streak s'"
    using end_round_fields [OF e] by (auto split: if_splits)
  with e m le [OF m] end_round_outcomes [OF e]
  have 1: "\<exists>s'. end_round t now s won = Inr s' \<and> outcomes s' = outcomes s @ [won] \<and>
            longest_streak s' = max_run (outcomes s') \<and>
            longest_streak s \<le> longest_streak s' \<and> current_streak s' \<le> longest_streak s'"
    by (auto simp: streaks_match_log_def)
  have 2: "\<forall>es s'. run s es = Inr s' \<longrightarrow>
            longest_streak s' = max_run (outcomes s') \<and>
            longest_streak s \<le> longest_streak s' \<and> current_streak s' \<le> longest_streak s'"
  proof (intro allI impI)
    fix es s' assume r: "run s es = Inr s'"
    from run_streaks_match [OF assms(3) r] have "streaks_match_log s'" .
    with le [OF this] run_longest_mono [OF r]
    show "longest_streak s' = max_run (outcomes s') \<and>
            longest_streak s \<le> longest_streak s' \<and> current_streak s' \<le> longest_streak s'"
      by (simp add: streaks_match_log_def)
  qed
  have 3: "\<forall>n. n \<le> max_run (outcomes s) \<longleftrightarrow> sublist (replicate n True) (outcomes s)"
    by (simp add: max_run_sublist)
  from 1 2 3 show ?thesis by blast
qed

lemma example_click_right: "on_block_click 12 example_now example_game 1 1 = Inr example_won"
  by (simp add: on_block_click_def end_round_def example_game_def example_won_def
      all_positions_2 configure_def Let_def example_now_def date_of_def float_of_numeral strftime_Ym_def pad4_def
      pad2_def digit_def correct_select_color_def)

lemma example_click_wrong: "on_block_click 12 example_now example_game 0 1 = Inr example_lost"
  by (simp add: on_block_click_def end_round_def example_game_def example_lost_def
      all_positions_2 configure_def Let_def example_now_def date_of_def float_of_numeral strftime_Ym_def pad4_def
      pad2_def digit_def wrong_select_color_def)

lemma example_run_right: "run example_game [Click_block 12 example_now 1 1] = Inr example_won"
  using example_click_right by (simp add: click_button_def example_game_def)

lemma example_run_wrong: "run example_game [Click_block 12 example_now 0 1] = Inr example_lost"
  using example_click_wrong by (simp add: click_button_def example_game_def)

lemma example_started: "round_start_time example_game \<noteq> None"
  by (simp add: example_game_def)

theorem level_transition_witness:
  "1 \<le> level example_game \<and> board_ok example_game \<and> round_start_time example_game \<noteq> None \<and>
   (\<exists>s'. end_round 12 example_now example_game True = Inr s' \<and> level s' = 2) \<and>
   (\<exists>s'. end_round 12 example_now example_game False = Inr s' \<and> level s' = 1) \<and>
   run example_game [Click_block 12 example_now 0 1] = Inr example_lost \<and> 1 \<le> level example_lost"
proof -
  have l: "1 \<le> level example_game"
    by (simp add: example_game_def)
  have "level example_game + 1 = 2"
    by (simp add: example_game_def)
  with level_transition [OF l example_board_ok example_started, of 12 example_now]
    l example_board_ok example_started example_run_wrong
  show ?thesis by metis
qed

theorem round_numbering_witness:
  "board_ok example_game \<and> round_start_time example_game \<noteq> None \<and>
   numbered (performance_data example_game) \<and>
   run example_game [Click_block 12 example_now 1 1] = Inr example_won \<and>
   map rec_round (performance_data example_won) = [1..<length (performance_data example_won) + 1] \<and>
   (\<exists>s' r. end_round 12 example_now example_game False = Inr s' \<and>
      performance_data s' = performance_data example_game @ [r] \<and> rec_round r = 1 \<and> rec_level r = 1)"
proof -
  have n: "numbered (performance_data example_game)"
    by (simp add: example_game_def numbered_def)
  have "length (performance_data example_game) + 1 = 1" and "level example_game = 1"
    by (simp_all add: example_game_def)
  with round_numbering [OF example_board_ok example_started, of 12 example_now False]
    n example_board_ok example_started example_run_right
  show ?thesis by metis
qed

theorem longest_streak_is_max_run_witness:
  "board_ok example_game \<and> round_start_time example_game \<noteq> None \<and>
   streaks_match_log example_game \<and>
   run example_game [Click_block 12 example_now 1 1] = Inr example_won \<and>
   outcomes example_won = [True] \<and>
   longest_streak example_won = max_run (outcomes example_won) \<and>
   longest_streak example_game \<le> longest_streak example_won \<and>
   current_streak example_won \<le> longest_streak example_won"
proof -
  have m: "streaks_match_log example_game"
    by (simp add: streaks_match_log_def example_game_def outcomes_def trailing_run_def)
  have o: "outcomes example_won = [True]"
    by (simp add: outcomes_def example_won_def example_game_def)
  from longest_streak_is_max_run [OF example_board_ok example_started m, of 12 example_now True]
    m o example_board_ok example_started example_run_right
  show ?thesis by metis
qed

section \<open>Rounds: properties\<close>

lemma finish_showing_sequence_effect:
  assumes b: "board_ok s"
  shows "\<exists>bs. finish_showing_sequence s =
           Inr (s\<lparr>showing_sequence := False, buttons := bs, message_label := Click_the_blocks,
                  show_pattern_button := normal\<rparr>) \<and>
         map length bs = map length (buttons s) \<and>
         (\<forall>q\<in>set (all_positions (grid_size s)). state (bs ! fst q ! snd q) = normal)"
proof -
  let ?f = "\<lambda>b::button. b\<lparr>state := normal\<rparr>"
  from configure_each_ok [OF board_ok_all_positions [OF b], of ?f]
  obtain bs where c: "configure_each ?f (buttons s) (all_positions (grid_size s)) = Inr bs"
    and sh: "map length bs = map length (buttons s)"
    by blast
  have "\<forall>q\<in>set (all_positions (grid_size s)). state (bs ! fst q ! snd q) = normal"
    using configure_each_establishes [of "\<lambda>b. state b = normal" ?f, OF _ c]
      board_ok_all_positions [OF b] by simp
  with c sh show ?thesis
    by (intro exI [of _ bs]) (simp add: finish_showing_sequence_def)
qed

lemma show_sequence_step_effect:
  assumes "board_ok s" and "sequence_in_grid s" and "index < length (correct_sequence s)"
  shows "\<exists>bs. show_sequence_step s index =
           Inr (s\<lparr>buttons := bs, timers := timers s @ [(1000, Hide_sequence_step index)]\<rparr>) \<and>
         map length bs = map length (buttons s) \<and>
         bg (bs ! fst (correct_sequence s ! index) ! snd (correct_sequence s ! index)) = highlight_color \<and>
         (\<forall>q. in_board (buttons s) q \<longrightarrow> state (bs ! fst q ! snd q) = state (buttons s ! fst q ! snd q))"
proof -
  let ?p = "correct_sequence s ! index"
  let ?f = "\<lambda>b::button. b\<lparr>bg := highlight_color\<rparr>"
  from assms(2,3) have "fst ?p < nat (grid_size s)" and "snd ?p < nat (grid_size s)"
    by (simp_all add: sequence_in_grid_def)
  with assms(1) have p: "in_board (buttons s) ?p"
    by (rule board_ok_in_board)
  let ?bs = "(buttons s)[fst ?p := (buttons s ! fst ?p)[snd ?p := ?f (buttons s ! fst ?p ! snd ?p)]]"
  from p have c: "configure ?f (buttons s) ?p = Inr ?bs"
    by (rule configure_ok)
  have sh: "map length ?bs = map length (buttons s)"
    using c by (rule configure_shape)
  have hl: "bg (?bs ! fst ?p ! snd ?p) = highlight_color"
    using configure_cell [OF c p, of ] p by simp
  have st: "\<forall>q. in_board (buttons s) q \<longrightarrow> state (?bs ! fst q ! snd q) = state (buttons s ! fst q ! snd q)"
  proof (intro allI impI)
    fix q assume q: "in_board (buttons s) q"
    from configure_cell [OF c q]
    show "state (?bs ! fst q ! snd q) = state (buttons s ! fst q ! snd q)"
      by (cases "q = ?p") simp_all
  qed
  from assms(3) c sh hl st show ?thesis
    by (intro exI [of _ ?bs]) (simp add: show_sequence_step_def)
qed

lemma show_sequence_step_ok:
  assumes "board_ok s" and "sequence_in_grid s"
  shows "\<exists>s'. show_sequence_step s index = Inr s' \<and> correct_sequence s' = correct_sequence s \<and>
           grid_size s' = grid_size s \<and> level s' = level s \<and>
           initial_sequence_length s' = initial_sequence_length s \<and>
           sequence_index s' = sequence_index s \<and> replay_count s' = replay_count s \<and>
           round_start_time s' = round_start_time s \<and> next_button s' = next_button s \<and>
           map length (buttons s') = map length (buttons s)"
proof (cases "index < length (correct_sequence s)")
  case True
  from show_sequence_step_effect [OF assms True] show ?thesis
    by auto
next
  case False
  with finish_showing_sequence_effect [OF assms(1)] show ?thesis
    by (auto simp: show_sequence_step_def)
qed

lemma random_sample_ok:
  assumes "0 \<le> k" and "k \<le> int (length population)" and "distinct population"
  shows "\<exists>xs. random_sample rng population k = Inr xs \<and> distinct xs \<and> int (length xs) = k \<and>
           set xs \<subseteq> set population"
proof -
  let ?xs = "sample_from rng 0 population (nat k)"
  from assms(1,2) have k: "nat k \<le> length population"
    by simp
  have "random_sample rng population k = Inr ?xs"
    using assms(1,2) by (simp add: random_sample_def)
  moreover have "distinct ?xs"
    using k assms(3) by (rule sample_from_distinct)
  moreover have "int (length ?xs) = k"
    using assms(1) by (simp add: length_sample_from)
  moreover have "set ?xs \<subseteq> set population"
    using k by (rule sample_from_subset)
  ultimately show ?thesis by blast
qed

lemma random_sample_error:
  "k < 0 \<or> int (length population) < k \<Longrightarrow> random_sample rng population k = Inl ValueError"
  by (auto simp: random_sample_def)

text \<open>
  Claim C3. For every grid size \<open>\<ge> 0\<close> and all levels and initial sequence lengths with
  \<open>initial_sequence_length + level - 1 \<ge> 0\<close>, and for every random source,
  \<^verbatim>\<open>start_new_round\<close> returns, and the sequence it generates consists of pairwise
  different positions, has length \<open>min (grid_size\<^sup>2) (initial_sequence_length + level - 1)\<close>,
  and lies within the grid. (Outside that range \<^verbatim>\<open>random.sample\<close> raises
  \<^verbatim>\<open>ValueError\<close>: lemma \<open>random_sample_error\<close>.)
\<close>

theorem sequence_validity:
  assumes b: "board_ok s" and g: "0 \<le> grid_size s"
    and n: "0 \<le> initial_sequence_length s + (level s - 1)"
  shows "\<exists>s'. start_new_round rng t s = Inr s' \<and>
           distinct (correct_sequence s') \<and>
           int (length (correct_sequence s')) =
             min (grid_size s * grid_size s) (initial_sequence_length s + level s - 1) \<and>
           (\<forall>(r, c)\<in>set (correct_sequence s'). int r < grid_size s \<and> int c < grid_size s)"
proof -
  let ?f = "\<lambda>b::button. b\<lparr>bg := default_color, state := disabled\<rparr>"
  let ?s1 = "s\<lparr>sequence_index := 0, showing_sequence := True, replay_count := 0,
               next_button := disabled, show_pattern_button := disabled,
               round_start_time := Some t\<rparr>"
  let ?k = "min (grid_size s * grid_size s) (initial_sequence_length s + (level s - 1))"
  from configure_each_ok [OF board_ok_all_positions [OF b], of ?f]
  obtain bs where c: "configure_each ?f (buttons s) (all_positions (grid_size s)) = Inr bs"
    and sh: "map length bs = map length (buttons s)"
    by blast
  from g n have k0: "0 \<le> ?k"
    by simp
  from g have "int (length (all_positions (grid_size s))) = grid_size s * grid_size s"
    by (simp add: length_all_positions nat_mult_distrib [symmetric])
  then have k1: "?k \<le> int (length (all_positions (grid_size s)))"
    by simp
  from random_sample_ok [OF k0 k1 distinct_all_positions, of rng]
  obtain xs where r: "random_sample rng (all_positions (grid_size s)) ?k = Inr xs"
    and d: "distinct xs" and l: "int (length xs) = ?k"
    and sub: "set xs \<subseteq> set (all_positions (grid_size s))"
    by blast
  let ?s3 = "?s1\<lparr>buttons := bs, message_label := Watch_the_sequence (level s), correct_sequence := xs\<rparr>"
  have b3: "board_ok ?s3"
    using b sh by (simp add: board_ok_def)
  have in3: "sequence_in_grid ?s3"
    using sub by (auto simp: sequence_in_grid_def set_all_positions)
  from show_sequence_step_ok [OF b3 in3, of 0]
  obtain s' where sh0: "show_sequence_step ?s3 0 = Inr s'" and cs: "correct_sequence s' = xs"
    by auto
  have "start_new_round rng t s = Inr s'"
    using c r sh0 by (simp add: start_new_round_def Let_def)
  moreover have "\<forall>(r, c)\<in>set xs. int r < grid_size s \<and> int c < grid_size s"
    using sub by (auto simp: set_all_positions)
  ultimately show ?thesis
    using d l cs by (intro exI [of _ s']) (simp add: algebra_simps)
qed

lemma end_round_resolves:
  assumes "board_ok s" and "round_start_time s \<noteq> None"
  shows "\<exists>s'. end_round t now s won = Inr s' \<and>
           resolved_with s s' (if won then ''Success'' else ''Fail'') \<and>
           sequence_index s' = sequence_index s \<and> correct_sequence s' = correct_sequence s"
proof -
  from assms(2) obtain start where st: "round_start_time s = Some start"
    by auto
  from end_round_effect [OF assms(1) st, of t now won] show ?thesis
    by (auto simp: resolved_with_def)
qed

lemma resolved_with_frame:
  "performance_data s1 = performance_data s \<Longrightarrow> resolved_with s1 s' res \<Longrightarrow> resolved_with s s' res"
  by (simp add: resolved_with_def)

text \<open>
  Claim C1. While the round awaits input with cursor \<open>c\<close> inside the sequence, a selection
  (of a cell of the grid) equal to \<open>sequence[c]\<close> advances the cursor to \<open>c + 1\<close>, and
  the round is resolved, as a Success, exactly when \<open>c + 1\<close> is the length of the
  sequence (otherwise it keeps awaiting input and the log is unchanged); any other selection
  resolves the round as a Fail at once.
\<close>

theorem click_advances_or_fails:
  assumes b: "board_ok s" and st: "round_start_time s \<noteq> None" and a: "awaiting_input s"
    and c: "sequence_index s < length (correct_sequence s)"
    and r: "int row < grid_size s" and cl: "int col < grid_size s"
  shows "\<exists>s'. on_block_click t now s row col = Inr s' \<and>
    (if (row, col) = correct_sequence s ! sequence_index s
     then sequence_index s' = sequence_index s + 1 \<and>
       (if sequence_index s + 1 = length (correct_sequence s)
        then resolved_with s s' ''Success''
        else awaiting_input s' \<and> performance_data s' = performance_data s)
     else resolved_with s s' ''Fail'' \<and> sequence_index s' = sequence_index s)"
proof -
  from r cl have "fst (row, col) < nat (grid_size s)" and "snd (row, col) < nat (grid_size s)"
    by simp_all
  with b have p: "in_board (buttons s) (row, col)"
    by (rule board_ok_in_board)
  from a have ns: "\<not> showing_sequence s" and nb: "next_button s = disabled"
    by (simp_all add: awaiting_input_def)
  show ?thesis
  proof (cases "(row, col) = correct_sequence s ! sequence_index s")
    case True
    let ?f = "\<lambda>b::button. b\<lparr>bg := correct_select_color, state := disabled\<rparr>"
    let ?bs = "(buttons s)[row := (buttons s ! row)[col := ?f (buttons s ! row ! col)]]"
    let ?s1 = "s\<lparr>buttons := ?bs, sequence_index := sequence_index s + 1\<rparr>"
    from configure_ok [OF p, of ?f] have cf: "configure ?f (buttons s) (row, col) = Inr ?bs"
      by simp
    from configure_shape [OF cf] b have b1: "board_ok ?s1"
      by (simp add: board_ok_def)
    from st have st1: "round_start_time ?s1 \<noteq> None"
      by simp
    show ?thesis
    proof (cases "sequence_index s + 1 = length (correct_sequence s)")
      case last: True
      from end_round_resolves [OF b1 st1, of t now True]
      obtain s' where e: "end_round t now ?s1 True = Inr s'"
        and rw: "resolved_with ?s1 s' ''Success''"
        and si: "sequence_index s' = sequence_index s + 1"
        by auto
      from rw have "resolved_with s s' ''Success''"
        by (rule resolved_with_frame [rotated]) simp
      moreover have "on_block_click t now s row col = Inr s'"
        using ns c True cf last e by (simp add: on_block_click_def Let_def)
      ultimately show ?thesis
        using True last si by (intro exI [of _ s']) simp
    next
      case False
      have "on_block_click t now s row col = Inr ?s1"
        using ns c True cf False by (simp add: on_block_click_def Let_def)
      then show ?thesis
        using True False ns nb by (intro exI [of _ ?s1]) (simp add: awaiting_input_def)
    qed
  next
    case False
    let ?f = "\<lambda>b::button. b\<lparr>bg := wrong_select_color, state := disabled\<rparr>"
    let ?bs = "(buttons s)[row := (buttons s ! row)[col := ?f (buttons s ! row ! col)]]"
    let ?s1 = "s\<lparr>buttons := ?bs\<rparr>"
    from configure_ok [OF p, of ?f] have cf: "configure ?f (buttons s) (row, col) = Inr ?bs"
      by simp
    from configure_shape [OF cf] b have b1: "board_ok ?s1"
      by (simp add: board_ok_def)
    from st have st1: "round_start_time ?s1 \<noteq> None"
      by simp
    from end_round_resolves [OF b1 st1, of t now False]
    obtain s' where e: "end_round t now ?s1 False = Inr s'"
      and rw: "resolved_with ?s1 s' ''Fail''"
      and si: "sequence_index s' = sequence_index s"
      by auto
    from rw have "resolved_with s s' ''Fail''"
      by (rule resolved_with_frame [rotated]) simp
    moreover have "on_block_click t now s row col = Inr s'"
      using ns c False cf e by (simp add: on_block_click_def Let_def)
    ultimately show ?thesis
      using False si by (intro exI [of _ s']) simp
  qed
qed

lemma board_ok_on_board:
  assumes "board_ok s" and "row < length (buttons s)" and "col < length (buttons s ! row)"
  shows "(row, col) \<in> set (all_positions (grid_size s))"
proof -
  from assms(1) have l: "length (buttons s) = nat (grid_size s)"
    unfolding board_ok_def by (metis length_map length_replicate)
  from assms(1,2) l have "map length (buttons s) ! row = nat (grid_size s)"
    unfolding board_ok_def by simp
  with assms(2) have "length (buttons s ! row) = nat (grid_size s)"
    by simp
  with assms(2,3) l show ?thesis
    by (simp add: set_all_positions)
qed

text \<open>
  Input out of phase, as the code handles it. While the sequence is on display
  \<^verbatim>\<open>on_block_click\<close> returns at once, and the state is unchanged. For a finished round it
  has no such check: \<^verbatim>\<open>end_round\<close> disables every cell button instead, so in the state
  it leaves, a press on any cell button changes nothing.
\<close>

lemma display_and_end_round_gates:
  assumes b: "board_ok s" and st: "round_start_time s \<noteq> None"
  shows "(showing_sequence s \<longrightarrow>
            on_block_click t now s row col = Inr s \<and> click_button t now s row col = Inr s) \<and>
         (\<exists>s'. end_round t now s won = Inr s' \<and> resolved s' \<and>
            (\<forall>t' now' row' col'. click_button t' now' s' row' col' = Inr s'))"
proof -
  have 1: "showing_sequence s \<longrightarrow>
            on_block_click t now s row col = Inr s \<and> click_button t now s row col = Inr s"
    by (simp add: on_block_click_def click_button_def)
  from st obtain start where "round_start_time s = Some start"
    by auto
  from end_round_effect [OF b this, of t now won]
  obtain s' where e: "end_round t now s won = Inr s'" and nb: "next_button s' = normal"
    and gs: "grid_size s' = grid_size s" and sh: "map length (buttons s') = map length (buttons s)"
    and dis: "\<forall>q\<in>set (all_positions (grid_size s)). state (buttons s' ! fst q ! snd q) = disabled"
    by blast
  from b gs sh have b': "board_ok s'"
    by (simp add: board_ok_def)
  have "click_button t' now' s' row' col' = Inr s'" for t' now' row' col'
  proof (cases "row' < length (buttons s') \<and> col' < length (buttons s' ! row')")
    case True
    with b' have "(row', col') \<in> set (all_positions (grid_size s'))"
      by (simp add: board_ok_on_board)
    with dis gs have "state (buttons s' ! row' ! col') = disabled"
      by fastforce
    then show ?thesis
      by (simp add: click_button_def)
  next
    case False
    then show ?thesis
      by (auto simp: click_button_def)
  qed
  with e nb have 2: "\<exists>s'. end_round t now s won = Inr s' \<and> resolved s' \<and>
            (\<forall>t' now' row' col'. click_button t' now' s' row' col' = Inr s')"
    by (auto simp: resolved_def)
  from 1 2 show ?thesis by blast
qed

text \<open>
  Called on the lost round of the example, \<^verbatim>\<open>on_block_click\<close> finishes the round a
  second time and appends a second record; called on the won round, it raises
  \<^verbatim>\<open>IndexError\<close>.
\<close>

lemma handler_after_end_round:
  "run example_game [Click_block 12 example_now 0 1] = Inr example_lost \<and>
   resolved example_lost \<and>
   on_block_click 13 example_now example_lost 1 0 = Inr example_lost_again \<and>
   example_lost_again \<noteq> example_lost \<and>
   length (performance_data example_lost_again) = length (performance_data example_lost) + 1 \<and>
   run example_game [Click_block 12 example_now 1 1] = Inr example_won \<and>
   resolved example_won \<and>
   on_block_click 13 example_now example_won 0 0 = Inl IndexError"
proof -
  have 1: "resolved example_lost"
    by (simp add: resolved_def example_lost_def)
  have 2: "on_block_click 13 example_now example_lost 1 0 = Inr example_lost_again"
    by (simp add: on_block_click_def end_round_def example_game_def example_lost_def
      example_lost_again_def all_positions_2 configure_def Let_def example_now_def date_of_def float_of_numeral
      strftime_Ym_def pad4_def pad2_def digit_def wrong_select_color_def)
  have 3: "length (performance_data example_lost_again) = length (performance_data example_lost) + 1"
    by (simp add: example_lost_again_def)
  then have 4: "example_lost_again \<noteq> example_lost"
    by auto
  have 5: "resolved example_won"
    by (simp add: resolved_def example_won_def)
  have 6: "on_block_click 13 example_now example_won 0 0 = Inl IndexError"
    by (simp add: on_block_click_def example_won_def example_game_def)
  from 1 2 3 4 5 6 example_run_wrong example_run_right show ?thesis
    by simp
qed

lemma example_disable:
  "configure_each (\<lambda>b. b\<lparr>state := disabled\<rparr>) (buttons example_game) (all_positions 2) =
     Inr [[\<lparr>bg = green, state = disabled\<rparr>, \<lparr>bg = lightgray, state = disabled\<rparr>],
          [\<lparr>bg = lightgray, state = disabled\<rparr>, \<lparr>bg = lightgray, state = disabled\<rparr>]]"
  by (simp add: example_game_def all_positions_2 configure_def)

lemma example_replay: "show_pattern_again example_game = Inr example_replaying"
  unfolding show_pattern_again_def Let_def
  by (simp add: example_disable [simplified] example_game_def all_positions_2)
     (simp add: show_sequence_step_def configure_def example_replaying_def example_game_def highlight_color_def)

lemma example_sample:
  "sample_from (\<lambda>i. 1) 0 [(0 :: nat, 0 :: nat), (0, 1), (1, 0), (1, 1)] 3 = [(0, 1), (1, 0), (1, 1)]"
  by code_simp

lemma example_reset:
  "configure_each (\<lambda>b. b\<lparr>bg := default_color, state := disabled\<rparr>) (buttons example_won) (all_positions 2) =
     Inr [[\<lparr>bg = lightgray, state = disabled\<rparr>, \<lparr>bg = lightgray, state = disabled\<rparr>],
          [\<lparr>bg = lightgray, state = disabled\<rparr>, \<lparr>bg = lightgray, state = disabled\<rparr>]]"
  by (simp add: example_won_def example_game_def all_positions_2 configure_def default_color_def)

lemma example_draw:
  "random_sample (\<lambda>i. 1) (all_positions 2) (min (2 * 2) (2 + (2 - 1))) = Inr [(0, 1), (1, 0), (1, 1)]"
  by code_simp

lemma example_won_fields:
  "grid_size example_won = 2" "initial_sequence_length example_won = 2" "level example_won = 2"
  by (simp_all add: example_won_def example_game_def)

lemma example_start: "start_new_round (\<lambda>i. 1) 20 example_won = Inr example_next"
  unfolding start_new_round_def Let_def
  by (simp add: example_won_fields example_reset [simplified] example_draw [simplified])
     (simp add: show_sequence_step_def configure_def example_next_def example_won_def
        example_game_def highlight_color_def)

lemma example_won_board_ok: "board_ok example_won"
  by (simp add: board_ok_def example_won_def example_game_def numeral_2_eq_2)

lemma example_replaying_board_ok: "board_ok example_replaying"
  by (simp add: board_ok_def example_replaying_def example_game_def numeral_2_eq_2)

lemma example_awaiting: "awaiting_input example_game"
  by (simp add: awaiting_input_def example_game_def)

lemma example_cursor: "sequence_index example_game < length (correct_sequence example_game)"
  by (simp add: example_game_def)

theorem click_advances_or_fails_witness:
  "board_ok example_game \<and> round_start_time example_game \<noteq> None \<and>
   awaiting_input example_game \<and>
   sequence_index example_game < length (correct_sequence example_game) \<and>
   on_block_click 12 example_now example_game 1 1 = Inr example_won \<and>
   sequence_index example_won = sequence_index example_game + 1 \<and>
   resolved_with example_game example_won ''Success'' \<and>
   on_block_click 12 example_now example_game 0 1 = Inr example_lost \<and>
   sequence_index example_lost = sequence_index example_game \<and>
   resolved_with example_game example_lost ''Fail''"
proof -
  have g: "int 1 < grid_size example_game" "int 0 < grid_size example_game"
    by (simp_all add: example_game_def)
  have r: "(1, 1) = correct_sequence example_game ! sequence_index example_game"
    "sequence_index example_game + 1 = length (correct_sequence example_game)"
    "(0, 1) \<noteq> correct_sequence example_game ! sequence_index example_game"
    by (simp_all add: example_game_def)
  from click_advances_or_fails [OF example_board_ok example_started example_awaiting example_cursor
      g(1) g(1), of 12 example_now] r example_click_right
  have 1: "sequence_index example_won = sequence_index example_game + 1 \<and>
      resolved_with example_game example_won ''Success''"
    by auto
  from click_advances_or_fails [OF example_board_ok example_started example_awaiting example_cursor
      g(2) g(1), of 12 example_now] r example_click_wrong
  have 2: "sequence_index example_lost = sequence_index example_game \<and>
      resolved_with example_game example_lost ''Fail''"
    by auto
  from 1 2 example_board_ok example_started example_awaiting example_cursor
    example_click_right example_click_wrong
  show ?thesis by simp
qed

theorem sequence_validity_witness:
  "board_ok example_won \<and> 0 \<le> grid_size example_won \<and>
   0 \<le> initial_sequence_length example_won + (level example_won - 1) \<and>
   start_new_round (\<lambda>i. 1) 20 example_won = Inr example_next \<and>
   correct_sequence example_next = [(0, 1), (1, 0), (1, 1)] \<and>
   distinct (correct_sequence example_next) \<and>
   int (length (correct_sequence example_next)) = min (2 * 2) (2 + 2 - 1)"
proof -
  have g: "0 \<le> grid_size example_won"
    and n: "0 \<le> initial_sequence_length example_won + (level example_won - 1)"
    by (simp_all add: example_won_def example_game_def)
  have v: "grid_size example_won = 2" "initial_sequence_length example_won = 2" "level example_won = 2"
    by (simp_all add: example_won_def example_game_def)
  have c: "correct_sequence example_next = [(0, 1), (1, 0), (1, 1)]"
    by (simp add: example_next_def)
  from sequence_validity [OF example_won_board_ok g n, of "\<lambda>i. 1" 20] example_start
  have "distinct (correct_sequence example_next) \<and>
    int (length (correct_sequence example_next)) = min (2 * 2) (2 + 2 - 1)"
    unfolding v by auto
  with example_won_board_ok g n example_start c show ?thesis
    by simp
qed

section \<open>Replay: properties\<close>

lemma hide_sequence_step_effect:
  assumes "board_ok s" and "sequence_in_grid s" and "index < length (correct_sequence s)"
  shows "\<exists>bs. hide_sequence_step s index =
           Inr (s\<lparr>buttons := bs, timers := timers s @ [(200, Show_sequence_step (index + 1))]\<rparr>) \<and>
         map length bs = map length (buttons s)"
proof -
  let ?p = "correct_sequence s ! index"
  let ?f = "\<lambda>b::button. b\<lparr>bg := default_color\<rparr>"
  from assms(2,3) have "fst ?p < nat (grid_size s)" and "snd ?p < nat (grid_size s)"
    by (simp_all add: sequence_in_grid_def)
  with assms(1) have p: "in_board (buttons s) ?p"
    by (rule board_ok_in_board)
  let ?bs = "(buttons s)[fst ?p := (buttons s ! fst ?p)[snd ?p := ?f (buttons s ! fst ?p ! snd ?p)]]"
  from p have c: "configure ?f (buttons s) ?p = Inr ?bs"
    by (rule configure_ok)
  have sh: "map length ?bs = map length (buttons s)"
    using c by (rule configure_shape)
  from assms(3) c sh show ?thesis
    by (intro exI [of _ ?bs]) (simp add: hide_sequence_step_def)
qed

text \<open>
  A display whose only pending callback hides step \<open>i\<close> runs to its end: after two
  callbacks per remaining step the game accepts clicks again, and neither the sequence, the
  cursor, the log, the level nor the streaks have changed.
\<close>

lemma display_completes:
  assumes "board_ok s" and "sequence_in_grid s"
    and "timers s = [(d, Hide_sequence_step i)]" and "i < length (correct_sequence s)"
  shows "\<exists>s'. run s (replicate (2 * (length (correct_sequence s) - i)) (Timer 0)) = Inr s' \<and>
           \<not> showing_sequence s' \<and> timers s' = [] \<and>
           correct_sequence s' = correct_sequence s \<and> sequence_index s' = sequence_index s \<and>
           score s' = score s \<and> replay_count s' = replay_count s \<and>
           next_button s' = next_button s \<and> round_start_time s' = round_start_time s \<and>
           grid_size s' = grid_size s \<and> map length (buttons s') = map length (buttons s)"
  using assms
proof (induction "length (correct_sequence s) - i" arbitrary: s i d)
  case 0
  then show ?case by simp
next
  case (Suc m)
  let ?s1 = "s\<lparr>timers := []\<rparr>"
  have b1: "board_ok ?s1" and g1: "sequence_in_grid ?s1"
    using Suc.prems(1,2) by (simp_all add: board_ok_def sequence_in_grid_def)
  from Suc.prems(4) have i1: "i < length (correct_sequence ?s1)"
    by simp
  from hide_sequence_step_effect [OF b1 g1 i1]
  obtain bs where h: "hide_sequence_step ?s1 i =
      Inr (?s1\<lparr>buttons := bs, timers := [(200, Show_sequence_step (i + 1))]\<rparr>)"
    and sh: "map length bs = map length (buttons s)"
    by auto
  let ?s2 = "?s1\<lparr>buttons := bs, timers := [(200, Show_sequence_step (i + 1))]\<rparr>"
  from Suc.prems(3) h have f1: "handle_event s (Timer 0) = Inr ?s2"
    by (simp add: fire_timer_def)
  let ?s3 = "?s2\<lparr>timers := []\<rparr>"
  have b3: "board_ok ?s3" and g3: "sequence_in_grid ?s3"
    using Suc.prems(1,2) sh by (simp_all add: board_ok_def sequence_in_grid_def)
  have f2: "handle_event ?s2 (Timer 0) = show_sequence_step ?s3 (i + 1)"
    by (simp add: fire_timer_def)
  have rep: "replicate (2 * (length (correct_sequence s) - i)) (Timer 0) =
      Timer 0 # Timer 0 # replicate (2 * m) (Timer 0)"
    using Suc.hyps(2) [symmetric] by simp
  show ?case
  proof (cases "i + 1 < length (correct_sequence s)")
    case True
    then have i3: "i + 1 < length (correct_sequence ?s3)"
      by simp
    from show_sequence_step_effect [OF b3 g3 i3]
    obtain bs' where e: "show_sequence_step ?s3 (i + 1) =
        Inr (?s3\<lparr>buttons := bs', timers := [(1000, Hide_sequence_step (i + 1))]\<rparr>)"
      and sh': "map length bs' = map length (buttons ?s3)"
      by auto
    let ?s4 = "?s3\<lparr>buttons := bs', timers := [(1000, Hide_sequence_step (i + 1))]\<rparr>"
    have b4: "board_ok ?s4" and g4: "sequence_in_grid ?s4"
      using Suc.prems(1,2) sh sh' by (simp_all add: board_ok_def sequence_in_grid_def)
    have m: "m = length (correct_sequence ?s4) - (i + 1)"
      using Suc.hyps(2) by simp
    have t4: "timers ?s4 = [(1000, Hide_sequence_step (i + 1))]"
      by simp
    have i4: "i + 1 < length (correct_sequence ?s4)"
      using True by simp
    from Suc.hyps(1) [OF m b4 g4 t4 i4]
    obtain s' where r: "run ?s4 (replicate (2 * m) (Timer 0)) = Inr s'"
      and p: "\<not> showing_sequence s'" "timers s' = []" "correct_sequence s' = correct_sequence s"
        "sequence_index s' = sequence_index s" "score s' = score ?s4" "replay_count s' = replay_count s"
        "next_button s' = next_button s" "round_start_time s' = round_start_time s"
        "grid_size s' = grid_size s" "map length (buttons s') = map length (buttons s)"
      using m sh sh' by auto
    have "run s (replicate (2 * (length (correct_sequence s) - i)) (Timer 0)) = Inr s'"
      unfolding rep using f1 f2 e r by simp
    with p show ?thesis
      by (intro exI [of _ s']) (simp add: score_def)
  next
    case False
    with Suc.hyps(2) have m0: "m = 0"
      by simp
    from finish_showing_sequence_effect [OF b3]
    obtain bs' where e: "finish_showing_sequence ?s3 =
        Inr (?s3\<lparr>showing_sequence := False, buttons := bs', message_label := Click_the_blocks,
                   show_pattern_button := normal\<rparr>)"
      and sh': "map length bs' = map length (buttons ?s3)"
      by auto
    let ?s4 = "?s3\<lparr>showing_sequence := False, buttons := bs', message_label := Click_the_blocks,
                   show_pattern_button := normal\<rparr>"
    from False e have "show_sequence_step ?s3 (i + 1) = Inr ?s4"
      by (simp add: show_sequence_step_def)
    with f1 f2 have "run s (replicate (2 * (length (correct_sequence s) - i)) (Timer 0)) = Inr ?s4"
      unfolding rep m0 by simp
    then show ?thesis
      using sh sh' by (intro exI [of _ ?s4]) (simp add: score_def)
  qed
qed

lemma example_reachable:
  "init 2 2 1 (\<lambda>i. 2 * i) 10 = Inr example_initial \<and>
   run example_initial [Timer 0, Timer 0, Timer 0, Timer 0, Click_block 11 example_now 0 0] =
     Inr example_game"
  by code_simp

lemma configure_each_fails:
  "\<not> (\<forall>p\<in>set ps. in_board bs p) \<Longrightarrow> configure_each f bs ps = Inl IndexError"
proof (induction ps arbitrary: bs)
  case Nil
  then show ?case by simp
next
  case (Cons p ps)
  show ?case
  proof (cases "in_board bs p")
    case True
    let ?bs1 = "bs[fst p := (bs ! fst p)[snd p := f (bs ! fst p ! snd p)]]"
    from True have c: "configure f bs p = Inr ?bs1"
      by (rule configure_ok)
    have sh: "map length ?bs1 = map length bs"
      using c by (rule configure_shape)
    have eq: "in_board ?bs1 = in_board bs"
      by (rule ext) (rule in_board_shape [OF sh])
    from Cons.prems True have "\<not> (\<forall>q\<in>set ps. in_board ?bs1 q)"
      by (simp add: eq)
    from Cons.IH [OF this] c show ?thesis
      by simp
  next
    case False
    then have "configure f bs p = Inl IndexError"
      unfolding configure_def in_board_def by (rule if_not_P)
    then show ?thesis
      by simp
  qed
qed

lemma on_block_click_outside:
  "\<not> showing_sequence s \<Longrightarrow> sequence_index s < length (correct_sequence s) \<Longrightarrow>
   \<not> in_board (buttons s) (row, col) \<Longrightarrow> on_block_click t now s row col = Inl IndexError"
proof -
  assume a: "\<not> showing_sequence s" "sequence_index s < length (correct_sequence s)"
    and out: "\<not> in_board (buttons s) (row, col)"
  from out have c: "configure f (buttons s) (row, col) = Inl IndexError" for f
    unfolding configure_def in_board_def by (rule if_not_P)
  show ?thesis
  proof (cases "(row, col) = correct_sequence s ! sequence_index s")
    case True
    have "configure f (buttons s) (correct_sequence s ! sequence_index s) = Inl IndexError" for f
      using c [of f] by (simp only: True)
    with a True show ?thesis
      by (simp add: on_block_click_def Let_def)
  next
    case False
    with a c show ?thesis
      by (simp add: on_block_click_def Let_def)
  qed
qed

text \<open>
  Two games with the same \<open>play\<close> are resolved alike by \<^verbatim>\<open>end_round\<close>, and a selection
  or a list of selections is decided alike in both: the same error, or results with the same
  \<open>play\<close> again.
\<close>

lemma end_round_play:
  assumes "play a = play b"
  shows "map_sum id play (end_round t now a won) = map_sum id play (end_round t now b won)"
proof -
  from assms have sh: "map length (buttons a) = map length (buttons b)"
    and gs: "grid_size a = grid_size b" and st: "round_start_time a = round_start_time b"
    and f: "level a = level b" "current_streak a = current_streak b"
      "longest_streak a = longest_streak b" "sequence_index a = sequence_index b"
      "showing_sequence a = showing_sequence b" "correct_sequence a = correct_sequence b"
    and pd: "map without_replays (performance_data a) = map without_replays (performance_data b)"
    by (simp_all add: play_def)
  from pd have len: "length (performance_data a) = length (performance_data b)"
    by (rule map_eq_imp_length_eq)
  have eq: "in_board (buttons a) = in_board (buttons b)"
    by (rule ext) (rule in_board_shape [OF sh])
  let ?f = "\<lambda>b::button. b\<lparr>state := disabled\<rparr>"
  show ?thesis
  proof (cases "\<forall>p\<in>set (all_positions (grid_size a)). in_board (buttons a) p")
    case True
    from True have Tb: "\<forall>p\<in>set (all_positions (grid_size b)). in_board (buttons b) p"
      using gs by (simp add: eq)
    from configure_each_ok [OF True, of ?f]
    obtain bsa where ca: "configure_each ?f (buttons a) (all_positions (grid_size a)) = Inr bsa"
      and sha: "map length bsa = map length (buttons a)"
      by blast
    from configure_each_ok [OF Tb, of ?f]
    obtain bsb where cb: "configure_each ?f (buttons b) (all_positions (grid_size b)) = Inr bsb"
      and shb: "map length bsb = map length (buttons b)"
      by blast
    show ?thesis
    proof (cases "round_start_time a")
      case None
      with st have "round_start_time b = None"
        by simp
      with None ca cb show ?thesis
        by (simp add: end_round_def)
    next
      case (Some start)
      with st have "round_start_time b = Some start"
        by simp
      with Some ca cb sha shb sh gs f pd len show ?thesis
        by (simp add: end_round_def Let_def play_def without_replays_def)
    qed
  next
    case False
    then have Fb: "\<not> (\<forall>p\<in>set (all_positions (grid_size b)). in_board (buttons b) p)"
      using gs by (simp add: eq)
    from configure_each_fails [OF False] configure_each_fails [OF Fb] show ?thesis
      by (simp add: end_round_def)
  qed
qed

lemma on_block_click_play:
  assumes p: "play a = play b"
  shows "map_sum id play (on_block_click t now a row col) =
         map_sum id play (on_block_click t now b row col)"
proof -
  from p have sh: "map length (buttons a) = map length (buttons b)"
    and si: "sequence_index a = sequence_index b" and ss: "showing_sequence a = showing_sequence b"
    and sq: "correct_sequence a = correct_sequence b"
    by (simp_all add: play_def)
  have eq: "in_board (buttons a) = in_board (buttons b)"
    by (rule ext) (rule in_board_shape [OF sh])
  show ?thesis
  proof (cases "showing_sequence a \<or> sequence_index a \<ge> length (correct_sequence a)")
    case True
    with p si ss sq show ?thesis
      by (auto simp: on_block_click_def)
  next
    case False
    then have na: "\<not> showing_sequence a" "\<not> sequence_index a \<ge> length (correct_sequence a)"
      by simp_all
    with ss si sq have nb: "\<not> showing_sequence b" "\<not> sequence_index b \<ge> length (correct_sequence b)"
      by simp_all
    show ?thesis
    proof (cases "in_board (buttons a) (row, col)")
      case out: False
      then have "\<not> in_board (buttons b) (row, col)"
        by (simp add: eq)
      with nb have "on_block_click t now b row col = Inl IndexError"
        by (simp add: on_block_click_outside)
      moreover from na out have "on_block_click t now a row col = Inl IndexError"
        by (simp add: on_block_click_outside)
      ultimately show ?thesis
        by simp
    next
      case inb: True
      then have inb': "in_board (buttons b) (row, col)"
        by (simp add: eq)
      show ?thesis
      proof (cases "(row, col) = correct_sequence a ! sequence_index a")
        case right: True
        let ?f = "\<lambda>b::button. b\<lparr>bg := correct_select_color, state := disabled\<rparr>"
        let ?bsa = "(buttons a)[row := (buttons a ! row)[col := ?f (buttons a ! row ! col)]]"
        let ?bsb = "(buttons b)[row := (buttons b ! row)[col := ?f (buttons b ! row ! col)]]"
        let ?a1 = "a\<lparr>buttons := ?bsa, sequence_index := sequence_index a + 1\<rparr>"
        let ?b1 = "b\<lparr>buttons := ?bsb, sequence_index := sequence_index b + 1\<rparr>"
        from configure_ok [OF inb, of ?f] have ca: "configure ?f (buttons a) (row, col) = Inr ?bsa"
          by simp
        from configure_ok [OF inb', of ?f] have cb: "configure ?f (buttons b) (row, col) = Inr ?bsb"
          by simp
        from configure_shape [OF ca] configure_shape [OF cb] sh
        have sh1: "map length ?bsa = map length ?bsb"
          by simp
        from p sh1 have p1: "play ?a1 = play ?b1"
          by (simp add: play_def)
        from right si sq have right': "(row, col) = correct_sequence b ! sequence_index b"
          by simp
        have ea: "on_block_click t now a row col =
            (if sequence_index a + 1 = length (correct_sequence a) then end_round t now ?a1 True else Inr ?a1)"
          using na right ca by (simp add: on_block_click_def Let_def)
        have eb: "on_block_click t now b row col =
            (if sequence_index b + 1 = length (correct_sequence b) then end_round t now ?b1 True else Inr ?b1)"
          using nb right' cb by (simp add: on_block_click_def Let_def)
        show ?thesis
        proof (cases "sequence_index b + 1 = length (correct_sequence b)")
          case last: True
          with si sq have "sequence_index a + 1 = length (correct_sequence a)"
            by simp
          with last ea eb have "on_block_click t now a row col = end_round t now ?a1 True"
            and "on_block_click t now b row col = end_round t now ?b1 True"
            by simp_all
          then show ?thesis
            by (simp only: end_round_play [OF p1])
        next
          case more: False
          with si sq have "sequence_index a + 1 \<noteq> length (correct_sequence a)"
            by simp
          with more ea eb have "on_block_click t now a row col = Inr ?a1"
            and "on_block_click t now b row col = Inr ?b1"
            by simp_all
          then show ?thesis
            by (simp only: map_sum.simps p1)
        qed
      next
        case wrong: False
        let ?f = "\<lambda>b::button. b\<lparr>bg := wrong_select_color, state := disabled\<rparr>"
        let ?bsa = "(buttons a)[row := (buttons a ! row)[col := ?f (buttons a ! row ! col)]]"
        let ?bsb = "(buttons b)[row := (buttons b ! row)[col := ?f (buttons b ! row ! col)]]"
        let ?a1 = "a\<lparr>buttons := ?bsa\<rparr>"
        let ?b1 = "b\<lparr>buttons := ?bsb\<rparr>"
        from configure_ok [OF inb, of ?f] have ca: "configure ?f (buttons a) (row, col) = Inr ?bsa"
          by simp
        from configure_ok [OF inb', of ?f] have cb: "configure ?f (buttons b) (row, col) = Inr ?bsb"
          by simp
        from configure_shape [OF ca] configure_shape [OF cb] sh
        have sh1: "map length ?bsa = map length ?bsb"
          by simp
        from p sh1 have p1: "play ?a1 = play ?b1"
          by (simp add: play_def)
        from wrong si sq have wrong': "(row, col) \<noteq> correct_sequence b ! sequence_index b"
          by simp
        have "on_block_click t now a row col = end_round t now ?a1 False"
          using na wrong ca by (simp add: on_block_click_def Let_def)
        moreover have "on_block_click t now b row col = end_round t now ?b1 False"
          using nb wrong' cb by (simp add: on_block_click_def Let_def)
        ultimately show ?thesis
          by (simp only: end_round_play [OF p1])
      qed
    qed
  qed
qed

lemma selections_play:
  "play a = play b \<Longrightarrow> map_sum id play (selections a cs) = map_sum id play (selections b cs)"
proof (induction cs arbitrary: a b)
  case Nil
  then show ?case by simp
next
  case (Cons c cs)
  obtain t now row col where c: "c = (t, now, row, col)"
    by (cases c) auto
  from on_block_click_play [OF Cons.prems]
  have e: "map_sum id play (on_block_click t now a row col) =
           map_sum id play (on_block_click t now b row col)" .
  show ?case
  proof (cases "on_block_click t now a row col")
    case (Inl x)
    with e have "on_block_click t now b row col = Inl x"
      by (cases "on_block_click t now b row col") simp_all
    with Inl c show ?thesis
      by simp
  next
    case (Inr a')
    with e obtain b' where b': "on_block_click t now b row col = Inr b'" and p: "play a' = play b'"
      by (cases "on_block_click t now b row col") simp_all
    from Cons.IH [OF p] Inr b' c show ?thesis
      by simp
  qed
qed

text \<open>
  Claim C7. Requesting a replay while the round awaits input (cursor inside the sequence)
  adds exactly 1 to the replay count and enters the display again from index 0: the first
  cell of the sequence is highlighted and the callback hiding step 0 is scheduled. The
  sequence is the same, and the cursor, the log (hence the next round number), the level,
  the streaks and the start time are unchanged. When no other callback is pending, the
  replay runs to its end and the round awaits input again, on a board of the same shape,
  with the same sequence, cursor, log, level, streaks and start time. From there
  \<^verbatim>\<open>on_block_click\<close> decides every list of selections as it would have without the
  replay: the same error, or the same cursor, level, streaks, "Next Round" button and log,
  the \<^verbatim>\<open>replays\<close> entry of the new record apart.
\<close>

theorem replay_restarts_display:
  assumes b: "board_ok s" and g: "sequence_in_grid s" and a: "awaiting_input s"
    and c: "sequence_index s < length (correct_sequence s)"
  shows "\<exists>s'. show_pattern_again s = Inr s' \<and>
           replay_count s' = replay_count s + 1 \<and>
           showing_sequence s' \<and>
           timers s' = timers s @ [(1000, Hide_sequence_step 0)] \<and>
           bg (buttons s' ! fst (correct_sequence s ! 0) ! snd (correct_sequence s ! 0)) = highlight_color \<and>
           correct_sequence s' = correct_sequence s \<and>
           sequence_index s' = sequence_index s \<and>
           score s' = score s \<and>
           next_button s' = next_button s \<and>
           round_start_time s' = round_start_time s \<and>
           (timers s = [] \<longrightarrow>
             (\<exists>s''. run s' (replicate (2 * length (correct_sequence s)) (Timer 0)) = Inr s'' \<and>
                awaiting_input s'' \<and> replay_count s'' = replay_count s + 1 \<and>
                correct_sequence s'' = correct_sequence s \<and>
                sequence_index s'' = sequence_index s \<and> score s'' = score s \<and>
                timers s'' = [] \<and> board_ok s'' \<and> sequence_in_grid s'' \<and>
                round_start_time s'' = round_start_time s \<and>
                play s'' = play s \<and>
                (\<forall>cs. map_sum id play (selections s'' cs) = map_sum id play (selections s cs))))"
proof -
  let ?f = "\<lambda>b::button. b\<lparr>state := disabled\<rparr>"
  let ?s1 = "s\<lparr>replay_count := replay_count s + 1, showing_sequence := True,
               message_label := Replaying_the_sequence\<rparr>"
  from configure_each_ok [OF board_ok_all_positions [OF b], of ?f]
  obtain bs where cf: "configure_each ?f (buttons s) (all_positions (grid_size s)) = Inr bs"
    and sh: "map length bs = map length (buttons s)"
    by blast
  let ?s2 = "?s1\<lparr>buttons := bs\<rparr>"
  from b sh have b2: "board_ok ?s2"
    by (simp add: board_ok_def)
  from g have g2: "sequence_in_grid ?s2"
    by (simp add: sequence_in_grid_def)
  from c have c2: "0 < length (correct_sequence ?s2)"
    by (cases "correct_sequence s") simp_all
  from show_sequence_step_effect [OF b2 g2 c2]
  obtain bs' where e: "show_sequence_step ?s2 0 =
      Inr (?s2\<lparr>buttons := bs', timers := timers ?s2 @ [(1000, Hide_sequence_step 0)]\<rparr>)"
    and sh': "map length bs' = map length (buttons ?s2)"
    and hl: "bg (bs' ! fst (correct_sequence ?s2 ! 0) ! snd (correct_sequence ?s2 ! 0)) = highlight_color"
    by blast
  let ?s' = "?s2\<lparr>buttons := bs', timers := timers ?s2 @ [(1000, Hide_sequence_step 0)]\<rparr>"
  have r: "show_pattern_again s = Inr ?s'"
    using cf e by (simp add: show_pattern_again_def Let_def)
  have fin: "timers s = [] \<longrightarrow>
             (\<exists>s''. run ?s' (replicate (2 * length (correct_sequence s)) (Timer 0)) = Inr s'' \<and>
                awaiting_input s'' \<and> replay_count s'' = replay_count s + 1 \<and>
                correct_sequence s'' = correct_sequence s \<and>
                sequence_index s'' = sequence_index s \<and> score s'' = score s \<and>
                timers s'' = [] \<and> board_ok s'' \<and> sequence_in_grid s'' \<and>
                round_start_time s'' = round_start_time s \<and>
                play s'' = play s \<and>
                (\<forall>cs. map_sum id play (selections s'' cs) = map_sum id play (selections s cs)))"
  proof
    assume t: "timers s = []"
    have b': "board_ok ?s'" and g': "sequence_in_grid ?s'"
      using b g sh sh' by (simp_all add: board_ok_def sequence_in_grid_def)
    have t': "timers ?s' = [(1000, Hide_sequence_step 0)]"
      using t by simp
    have c': "0 < length (correct_sequence ?s')"
      using c2 by simp
    from display_completes [OF b' g' t' c']
    obtain s'' where rn: "run ?s' (replicate (2 * (length (correct_sequence ?s') - 0)) (Timer 0)) = Inr s''"
      and ns: "\<not> showing_sequence s''" and tm: "timers s'' = []"
      and sq: "correct_sequence s'' = correct_sequence ?s'"
      and si: "sequence_index s'' = sequence_index ?s'" and sc: "score s'' = score ?s'"
      and rc: "replay_count s'' = replay_count ?s'" and nb: "next_button s'' = next_button ?s'"
      and st: "round_start_time s'' = round_start_time ?s'"
      and gs: "grid_size s'' = grid_size ?s'"
      and shp: "map length (buttons s'') = map length (buttons ?s')"
      by blast
    from a have ns0: "\<not> showing_sequence s" and nb0: "next_button s = disabled"
      by (simp_all add: awaiting_input_def)
    from shp sh sh' have shp': "map length (buttons s'') = map length (buttons s)"
      by simp
    from b shp' gs have b'': "board_ok s''"
      by (simp add: board_ok_def)
    from g sq gs have g'': "sequence_in_grid s''"
      by (simp add: sequence_in_grid_def)
    from ns ns0 si sq gs shp' st nb sc have p: "play s'' = play s"
      by (simp add: play_def score_def)
    have sel: "\<forall>cs. map_sum id play (selections s'' cs) = map_sum id play (selections s cs)"
      using selections_play [OF p] by (rule allI)
    from rn have rn': "run ?s' (replicate (2 * length (correct_sequence s)) (Timer 0)) = Inr s''"
      by simp
    from ns nb nb0 have aw: "awaiting_input s''"
      by (simp add: awaiting_input_def)
    from rc have rc': "replay_count s'' = replay_count s + 1"
      by simp
    from sq have sq': "correct_sequence s'' = correct_sequence s"
      by simp
    from si have si': "sequence_index s'' = sequence_index s"
      by simp
    from sc have sc': "score s'' = score s"
      by (simp add: score_def)
    from st have st': "round_start_time s'' = round_start_time s"
      by simp
    from rn' aw rc' sq' si' sc' tm b'' g'' st' p sel
    show "\<exists>s''. run ?s' (replicate (2 * length (correct_sequence s)) (Timer 0)) = Inr s'' \<and>
                awaiting_input s'' \<and> replay_count s'' = replay_count s + 1 \<and>
                correct_sequence s'' = correct_sequence s \<and>
                sequence_index s'' = sequence_index s \<and> score s'' = score s \<and>
                timers s'' = [] \<and> board_ok s'' \<and> sequence_in_grid s'' \<and>
                round_start_time s'' = round_start_time s \<and>
                play s'' = play s \<and>
                (\<forall>cs. map_sum id play (selections s'' cs) = map_sum id play (selections s cs))"
      by (intro exI [of _ s'']) (intro conjI)
  qed
  have "replay_count ?s' = replay_count s + 1"
    and "showing_sequence ?s'"
    and "timers ?s' = timers s @ [(1000, Hide_sequence_step 0)]"
    and "bg (buttons ?s' ! fst (correct_sequence s ! 0) ! snd (correct_sequence s ! 0)) = highlight_color"
    and "correct_sequence ?s' = correct_sequence s"
    and "sequence_index ?s' = sequence_index s"
    and "score ?s' = score s"
    and "next_button ?s' = next_button s"
    and "round_start_time ?s' = round_start_time s"
    using hl by (simp_all add: score_def)
  with r fin show ?thesis
    by (intro exI [of _ ?s']) (intro conjI)
qed

lemma example_replay_timers:
  "replicate (2 * length (correct_sequence example_game)) (Timer 0) = [Timer 0, Timer 0, Timer 0, Timer 0]"
  by (simp add: example_game_def eval_nat_numeral)

lemma example_replay_done:
  "run example_replaying [Timer 0, Timer 0, Timer 0, Timer 0] = Inr example_replayed"
  by code_simp

lemma example_replayed_click:
  "selections example_replayed [(12, example_now, 1, 1)] =
     Inr (example_won\<lparr>
       buttons := [[\<lparr>bg = lightgray, state = disabled\<rparr>, \<lparr>bg = lightgray, state = disabled\<rparr>],
                   [\<lparr>bg = lightgray, state = disabled\<rparr>, \<lparr>bg = green, state = disabled\<rparr>]],
       replay_count := 1,
       performance_data := [\<lparr>rec_round = 1, rec_level = 1, rec_result = ''Success'', rec_time = Finite 2,
          rec_replays = 1, rec_date = \<lparr>year = 2025, month = 2, day = 3\<rparr>,
          rec_month_key = ''2025-02'', rec_streak_after_round = 1\<rparr>]\<rparr>)"
  by (simp add: on_block_click_def end_round_def example_game_def example_replayed_def example_won_def
      all_positions_2 configure_def Let_def example_now_def date_of_def float_of_numeral strftime_Ym_def pad4_def
      pad2_def digit_def correct_select_color_def)

theorem replay_restarts_display_witness:
  "board_ok example_game \<and> sequence_in_grid example_game \<and> awaiting_input example_game \<and>
   sequence_index example_game < length (correct_sequence example_game) \<and>
   timers example_game = [] \<and>
   show_pattern_again example_game = Inr example_replaying \<and>
   replay_count example_replaying = replay_count example_game + 1 \<and>
   showing_sequence example_replaying \<and>
   correct_sequence example_replaying = correct_sequence example_game \<and>
   sequence_index example_replaying = sequence_index example_game \<and>
   score example_replaying = score example_game \<and>
   run example_replaying [Timer 0, Timer 0, Timer 0, Timer 0] = Inr example_replayed \<and>
   awaiting_input example_replayed \<and>
   replay_count example_replayed = replay_count example_game + 1 \<and>
   correct_sequence example_replayed = correct_sequence example_game \<and>
   sequence_index example_replayed = sequence_index example_game \<and>
   score example_replayed = score example_game \<and>
   board_ok example_replayed \<and>
   round_start_time example_replayed = round_start_time example_game \<and>
   play example_replayed = play example_game \<and>
   map_sum id play (selections example_replayed [(12, example_now, 1, 1)]) = Inr (play example_won)"
proof -
  have g: "sequence_in_grid example_game"
    by (simp add: sequence_in_grid_def example_game_def)
  have t: "timers example_game = []"
    by (simp add: example_game_def)
  from replay_restarts_display [OF example_board_ok g example_awaiting example_cursor]
    example_replay t example_replay_done
  have 1: "replay_count example_replaying = replay_count example_game + 1 \<and>
   showing_sequence example_replaying \<and>
   correct_sequence example_replaying = correct_sequence example_game \<and>
   sequence_index example_replaying = sequence_index example_game \<and>
   score example_replaying = score example_game \<and>
   awaiting_input example_replayed \<and>
   replay_count example_replayed = replay_count example_game + 1 \<and>
   correct_sequence example_replayed = correct_sequence example_game \<and>
   sequence_index example_replayed = sequence_index example_game \<and>
   score example_replayed = score example_game \<and>
   board_ok example_replayed \<and>
   round_start_time example_replayed = round_start_time example_game \<and>
   play example_replayed = play example_game \<and>
   (\<forall>cs. map_sum id play (selections example_replayed cs) = map_sum id play (selections example_game cs))"
    unfolding example_replay_timers by auto
  then have "map_sum id play (selections example_replayed [(12, example_now, 1, 1)]) =
      map_sum id play (selections example_game [(12, example_now, 1, 1)])"
    by blast
  also have "\<dots> = Inr (play example_won)"
    using example_click_right by simp
  finally have 2: "map_sum id play (selections example_replayed [(12, example_now, 1, 1)]) =
      Inr (play example_won)" .
  from 1 2 example_board_ok g example_awaiting example_cursor t example_replay example_replay_done
  show ?thesis by simp
qed

text \<open>
  At the buttons a replay is not without effect. \<^verbatim>\<open>on_block_click\<close> disables the cell
  it marks, and \<^verbatim>\<open>hide_sequence_step\<close> and \<^verbatim>\<open>finish_showing_sequence\<close> give every
  cell of the sequence its default colour and enable the whole board, the cells selected
  before the replay too. In the example, pressing \<open>(0, 0)\<close> again is ignored by the
  disabled button before the replay, and the round is won with \<open>(1, 1)\<close>; after the replay
  the same press reaches \<^verbatim>\<open>on_block_click\<close>, which takes it for the selection at cursor
  1 and resolves the round as failed.
\<close>

lemma example_replayed_wrong:
  "on_block_click 12 example_now example_replayed 0 0 = Inr example_replayed_lost"
  by (simp add: on_block_click_def end_round_def example_game_def example_replayed_def
      example_replayed_lost_def all_positions_2 configure_def Let_def example_now_def date_of_def
      float_of_numeral strftime_Ym_def pad4_def pad2_def digit_def wrong_select_color_def)

lemma replay_enables_selected_cell:
  "state (buttons example_game ! 0 ! 0) = disabled \<and>
   state (buttons example_replayed ! 0 ! 0) = normal \<and>
   run example_game [Click_block 12 example_now 0 0, Click_block 12 example_now 1 1] =
     Inr example_won \<and>
   run example_replayed [Click_block 12 example_now 0 0, Click_block 12 example_now 1 1] =
     Inr example_replayed_lost"
proof -
  have 1: "click_button 12 example_now example_game 0 0 = Inr example_game"
    by (simp add: click_button_def example_game_def)
  have 2: "click_button 12 example_now example_game 1 1 = Inr example_won"
    using example_click_right by (simp add: click_button_def example_game_def)
  have 3: "click_button 12 example_now example_replayed 0 0 = Inr example_replayed_lost"
    using example_replayed_wrong by (simp add: click_button_def example_replayed_def)
  have 4: "click_button 12 example_now example_replayed_lost 1 1 = Inr example_replayed_lost"
    by (simp add: click_button_def example_replayed_lost_def example_replayed_def)
  have 5: "state (buttons example_game ! 0 ! 0) = disabled"
    by (simp add: example_game_def)
  have 6: "state (buttons example_replayed ! 0 ! 0) = normal"
    by (simp add: example_replayed_def)
  from 1 2 3 4 5 6 show ?thesis
    by simp
qed

lemma run_append:
  "run s (es @ es') = (case run s es of Inl e \<Rightarrow> Inl e | Inr s' \<Rightarrow> run s' es')"
  by (induction es arbitrary: s) (auto split: sum.splits)

lemma example_stale_replays:
  "run example_game
     [Click_show_pattern, Click_show_pattern, Timer 0, Timer 1, Timer 0, Timer 1, Timer 0, Timer 1] =
   Inr example_replayed_twice"
  by code_simp

lemma example_stale_wrong:
  "on_block_click 12 example_now example_replayed_twice 0 1 = Inr example_lost_stale"
  by (simp add: on_block_click_def end_round_def example_game_def example_replayed_twice_def
      example_lost_stale_def all_positions_2 configure_def Let_def example_now_def date_of_def
      float_of_numeral strftime_Ym_def pad4_def pad2_def digit_def wrong_select_color_def)

lemma example_stale_end: "run example_lost_stale [Timer 0, Timer 0] = Inr example_reopened"
  by code_simp

lemma example_stale_run: "run example_game stale_replay_events = Inr example_reopened"
proof -
  let ?replays = "[Click_show_pattern, Click_show_pattern, Timer 0, Timer 1, Timer 0, Timer 1,
    Timer 0, Timer 1]"
  let ?click = "Click_block 12 example_now 0 1"
  have e: "stale_replay_events = ?replays @ ?click # [Timer 0, Timer 0]"
    by (simp add: stale_replay_events_def)
  have c: "click_button 12 example_now example_replayed_twice 0 1 = Inr example_lost_stale"
    using example_stale_wrong by (simp add: click_button_def example_replayed_twice_def)
  have "run example_game (?replays @ ?click # [Timer 0, Timer 0]) =
      run example_replayed_twice (?click # [Timer 0, Timer 0])"
    by (simp only: run_append example_stale_replays sum.case)
  also have "\<dots> = run example_lost_stale [Timer 0, Timer 0]"
    by (simp only: run.simps(2) handle_event.simps(1) c sum.case)
  finally show ?thesis
    by (simp only: e example_stale_end)
qed

lemma example_stale_again:
  "on_block_click 13 example_now example_reopened 1 0 = Inr example_refinalized"
  by (simp add: on_block_click_def end_round_def example_game_def example_reopened_def
      example_refinalized_def all_positions_2 configure_def Let_def example_now_def date_of_def
      float_of_numeral strftime_Ym_def pad4_def pad2_def digit_def wrong_select_color_def)

lemma example_stale_click: "click_button 13 example_now example_reopened 1 0 = Inr example_refinalized"
  using example_stale_again by (simp add: click_button_def example_reopened_def)

text \<open>
  Claim C2. A selection delivered after the round has resolved should be ignored. The code
  does not ensure it: \<^verbatim>\<open>on_block_click\<close> checks only \<open>showing_sequence\<close>, and
  \<^verbatim>\<open>show_pattern_again\<close> leaves its own button enabled (\<^verbatim>\<open>start_new_round\<close>
  disables it), so a second replay can be requested during the first. In the run below, from
  the start of the program, the round is lost while the second replay is still pending; when
  that replay ends, \<^verbatim>\<open>finish_showing_sequence\<close> enables the board of the resolved round,
  and the next click resolves the same round again and appends a second record.
\<close>

theorem resolved_round_accepts_selection:
  "init 2 2 1 (\<lambda>i. 2 * i) 10 = Inr example_initial \<and>
   run example_initial [Timer 0, Timer 0, Timer 0, Timer 0, Click_block 11 example_now 0 0] =
     Inr example_game \<and>
   run example_game stale_replay_events = Inr example_reopened \<and>
   resolved example_reopened \<and>
   click_button 13 example_now example_reopened 1 0 = Inr example_refinalized \<and>
   example_refinalized \<noteq> example_reopened \<and>
   map rec_round (performance_data example_reopened) = [1] \<and>
   map rec_round (performance_data example_refinalized) = [1, 2]"
proof -
  have 1: "resolved example_reopened"
    by (simp add: resolved_def example_reopened_def)
  have 2: "map rec_round (performance_data example_reopened) = [1]"
    by (simp add: example_reopened_def)
  have 3: "map rec_round (performance_data example_refinalized) = [1, 2]"
    by (simp add: example_refinalized_def example_reopened_def)
  from 2 3 have 4: "example_refinalized \<noteq> example_reopened"
    by auto
  from example_reachable example_stale_run example_stale_click 1 2 3 4 show ?thesis
    by simp
qed

end
